theory Spec2Isabelle
  imports Main
begin

section \<open>Data model\<close>

text \<open>
  The development covers the class \<open>BatchInserter\<close> of \<open>models.py\<close>. A row is a Python
  dictionary from field names to values; a value is opaque to the inserter, except that
  the padding writes Python's \<open>None\<close>. Two dictionaries are equal when they hold the same
  items, so a row is a finite map.
\<close>

datatype pyval = PyNone | PyInt int | PyStr string

type_synonym row = "string \<rightharpoonup> pyval"

text \<open>An exception raised by the store, carried as the value that is raised.\<close>

datatype py_exception = Exception string

section \<open>Padding: \<open>BatchInserter._pad_data\<close>\<close>

text \<open>
  \<^verbatim>\<open>
  field_names = set()
  for row in rows:
      field_names = field_names.union(row.keys())
  default_data = {field_name: None for field_name in field_names}
  for i, _ in enumerate(rows):
      updated_data = copy.copy(default_data)
      updated_data.update(rows[i])
      rows[i] = updated_data
  \<close>
  The first loop folds the union over the rows. \<open>copy.copy\<close> followed by \<open>update\<close> is the
  right-biased map addition \<open>++\<close>. The second loop visits the indices \<open>0 .. len(rows) - 1\<close>
  in order and overwrites slot \<open>i\<close>; the list keeps its length, so every index read is in
  range.
\<close>

definition collect_field_names :: "row list \<Rightarrow> string set" where
  "collect_field_names rows =
     fold (\<lambda>row field_names. field_names \<union> dom row) rows {}"

definition default_data :: "string set \<Rightarrow> row" where
  "default_data field_names =
     (\<lambda>field_name. if field_name \<in> field_names then Some PyNone else None)"

definition updated_data :: "row \<Rightarrow> row \<Rightarrow> row" where
  "updated_data dflt r = dflt ++ r"

definition BatchInserter_pad_data :: "row list \<Rightarrow> row list" where
  "BatchInserter_pad_data rows =
     (let field_names = collect_field_names rows;
          dflt = default_data field_names
      in fold (\<lambda>i rs. rs[i := updated_data dflt (rs ! i)]) [0..<length rows] rows)"

section \<open>The store\<close>

text \<open>
  The inserter writes through \<open>db_proxy.atomic()\<close> and \<open>ModelType.insert_many(rows).execute()\<close>
  of the peewee library, which is not part of the repository. The store is therefore a
  small state of its own: the committed rows of each model, the number of atomic scopes
  that were opened, and the list of all bulk inserts that were issued, the failed ones
  included. What the database answers to a bulk insert is a parameter of the model, the
  \<open>store_behaviour\<close>: it may accept the batch, or raise after it wrote the first \<open>k\<close> rows
  of the batch. The answer may depend on the state of the store, so that a store can
  fail once and accept the same batch later.
\<close>

record store =
  table :: "(string \<times> row) list"
  atomic_opened :: nat
  bulk_inserts :: "(string \<times> row list) list"

datatype store_outcome = Accept | Reject py_exception nat

type_synonym store_behaviour = "store \<Rightarrow> string \<Rightarrow> row list \<Rightarrow> store_outcome"

definition insert_many_execute ::
  "store_behaviour \<Rightarrow> string \<Rightarrow> row list \<Rightarrow> store \<Rightarrow> py_exception option \<times> store" where
  "insert_many_execute beh M batch db =
     (let db1 = db\<lparr>bulk_inserts := bulk_inserts db @ [(M, batch)]\<rparr>
      in case beh db M batch of
           Accept \<Rightarrow> (None, db1\<lparr>table := table db1 @ map (Pair M) batch\<rparr>)
         | Reject e k \<Rightarrow> (Some e, db1\<lparr>table := table db1 @ map (Pair M) (take k batch)\<rparr>))"

text \<open>
  \<open>with db_proxy.atomic(): body\<close> opens a transaction, runs the body, commits when the body
  returns and rolls back and re-raises when the body raises.
\<close>

definition atomic ::
  "(store \<Rightarrow> py_exception option \<times> store) \<Rightarrow> store \<Rightarrow> py_exception option \<times> store" where
  "atomic body db =
     (let db0 = db\<lparr>atomic_opened := Suc (atomic_opened db)\<rparr>;
          (r, db1) = body db0
      in case r of
           None \<Rightarrow> (None, db1)
         | Some e \<Rightarrow> (Some e, db1\<lparr>table := table db0\<rparr>))"

section \<open>The class \<open>BatchInserter\<close>\<close>

record batch_inserter =
  rows :: "row list"
  ModelType :: string
  batch_size :: int
  pad_data :: bool

text \<open>
  \<open>__init__\<close> stores its arguments and starts with an empty list of rows. It has no branch
  that raises; the result is a sum so that a failing construction could be told apart.
\<close>

definition BatchInserter_init :: "string \<Rightarrow> int \<Rightarrow> bool \<Rightarrow> py_exception + batch_inserter" where
  "BatchInserter_init model_type bsize fill_missing_fields =
     Inr \<lparr>rows = [], ModelType = model_type, batch_size = bsize,
          pad_data = fill_missing_fields\<rparr>"

text \<open>
  \<^verbatim>\<open>
  def flush(self):
      if self.pad_data:
          self._pad_data(self.rows)
      with db_proxy.atomic():
          self.ModelType.insert_many(self.rows).execute()
      self.rows = []
  \<close>
  The padding rewrites the list \<open>self.rows\<close> in place, before the store is called. An
  exception of the store leaves \<open>flush\<close> before the last assignment.
\<close>

type_synonym world = "batch_inserter \<times> store"

definition BatchInserter_flush :: "store_behaviour \<Rightarrow> world \<Rightarrow> py_exception option \<times> world" where
  "BatchInserter_flush beh w =
     (let self = fst w; db = snd w;
          self1 = (if pad_data self
                   then self\<lparr>rows := BatchInserter_pad_data (rows self)\<rparr> else self);
          (r, db') = atomic (insert_many_execute beh (ModelType self1) (rows self1)) db
      in case r of
           Some e \<Rightarrow> (Some e, (self1, db'))
         | None \<Rightarrow> (None, (self1\<lparr>rows := []\<rparr>, db')))"

text \<open>
  \<^verbatim>\<open>
  def insert(self, row):
      self.rows.append(row)
      if len(self.rows) >= self.batch_size:
          self.flush()
  \<close>
\<close>

definition BatchInserter_insert ::
  "store_behaviour \<Rightarrow> row \<Rightarrow> world \<Rightarrow> py_exception option \<times> world" where
  "BatchInserter_insert beh row w =
     (let self = fst w; db = snd w;
          self1 = self\<lparr>rows := rows self @ [row]\<rparr>
      in if int (length (rows self1)) \<ge> batch_size self1
         then BatchInserter_flush beh (self1, db)
         else (None, (self1, db)))"

section \<open>Callers\<close>

text \<open>
  A caller is a sequence of calls on one inserter. A caller that catches the exception
  of a call goes on with the next call, in the state that the failed call left.
\<close>

datatype call = Insert row | Flush

fun do_call :: "store_behaviour \<Rightarrow> call \<Rightarrow> world \<Rightarrow> py_exception option \<times> world" where
  "do_call beh (Insert row) w = BatchInserter_insert beh row w"
| "do_call beh Flush w = BatchInserter_flush beh w"

fun run :: "store_behaviour \<Rightarrow> call list \<Rightarrow> world \<Rightarrow> world" where
  "run beh [] w = w"
| "run beh (c # cs) w = run beh cs (snd (do_call beh c w))"

definition healthy :: store_behaviour where
  "healthy = (\<lambda>db M batch. Accept)"

definition empty_store :: store where
  "empty_store = \<lparr>table = [], atomic_opened = 0, bulk_inserts = []\<rparr>"

text \<open>
  The batch that \<open>flush\<close> hands to the store: the rows of the inserter, padded when the
  inserter was built with \<open>fill_missing_fields\<close>.
\<close>

definition flush_batch :: "batch_inserter \<Rightarrow> row list" where
  "flush_batch self = (if pad_data self then BatchInserter_pad_data (rows self) else rows self)"

text \<open>A store that raises on the first bulk insert it sees, after it wrote one row, and
  accepts every later one.\<close>

definition flaky :: store_behaviour where
  "flaky = (\<lambda>db M batch.
      if bulk_inserts db = [] then Reject (Exception ''connection lost'') 1 else Accept)"

text \<open>
  The rows that a sequence of calls submits, in the order of the calls, and the rows that
  a state holds: the committed rows of the table, oldest first, followed by the rows of
  the buffer.
\<close>

fun submitted :: "call list \<Rightarrow> row list" where
  "submitted [] = []"
| "submitted (Insert row # cs) = row # submitted cs"
| "submitted (Flush # cs) = submitted cs"

definition content :: "world \<Rightarrow> row list" where
  "content w = map snd (table (snd w)) @ rows (fst w)"

text \<open>
  A sequence of calls succeeds when none of its calls raises. A call of \<open>insert\<close> or
  \<open>flush\<close> raises exactly when the bulk insert of its flush raises, so a sequence
  succeeds when none of its flushes has failed.
\<close>

fun succeeded :: "store_behaviour \<Rightarrow> call list \<Rightarrow> world \<Rightarrow> bool" where
  "succeeded beh [] w = True"
| "succeeded beh (c # cs) w =
     (fst (do_call beh c w) = None \<and> succeeded beh cs (snd (do_call beh c w)))"

section \<open>Rows as objects\<close>

text \<open>
  A Python dictionary is an object: \<open>insert\<close> appends a reference to the caller's
  dictionary, and \<open>_pad_data\<close> allocates dictionaries and stores references to them in the
  list. For the question of who writes into which dictionary, the class is modelled a
  second time over a heap of dictionaries. A reference is an address, the addresses
  below \<open>next_free\<close> are the allocated ones, and \<open>new_dict\<close> allocates the next one.
  \<open>copy.copy(default_data)\<close> is \<open>new_dict\<close> with the contents of the default dictionary,
  \<open>updated_data.update(rows[i])\<close> writes into the new dictionary, and \<open>rows[i] = updated_data\<close>
  overwrites slot \<open>i\<close> of the list of references. The bulk insert reads the
  dictionaries; it is taken not to write into them.
\<close>

type_synonym addr = nat

record heap =
  dicts :: "addr \<Rightarrow> row"
  next_free :: addr

definition new_dict :: "row \<Rightarrow> heap \<Rightarrow> addr \<times> heap" where
  "new_dict d h =
     (next_free h, h\<lparr>dicts := (dicts h)(next_free h := d), next_free := Suc (next_free h)\<rparr>)"

definition dict_update :: "addr \<Rightarrow> row \<Rightarrow> heap \<Rightarrow> heap" where
  "dict_update a r h = h\<lparr>dicts := (dicts h)(a := dicts h a ++ r)\<rparr>"

definition pad_slot :: "addr \<Rightarrow> nat \<Rightarrow> addr list \<times> heap \<Rightarrow> addr list \<times> heap" where
  "pad_slot dflt i s =
     (let rs = fst s; h = snd s;
          (updated, h1) = new_dict (dicts h dflt) h;
          h2 = dict_update updated (dicts h1 (rs ! i)) h1
      in (rs[i := updated], h2))"

definition ref_pad_data :: "addr list \<Rightarrow> heap \<Rightarrow> addr list \<times> heap" where
  "ref_pad_data rws h =
     (let field_names = fold (\<lambda>a field_names. field_names \<union> dom (dicts h a)) rws {};
          (dflt, h1) = new_dict (default_data field_names) h
      in fold (pad_slot dflt) [0..<length rws] (rws, h1))"

record ref_inserter =
  ref_rows :: "addr list"
  ref_ModelType :: string
  ref_batch_size :: int
  ref_pad_data_flag :: bool

type_synonym ref_world = "ref_inserter \<times> heap \<times> store"

definition ref_flush :: "store_behaviour \<Rightarrow> ref_world \<Rightarrow> py_exception option \<times> ref_world" where
  "ref_flush beh w =
     (let self = fst w; h = fst (snd w); db = snd (snd w);
          (rws, h1) = (if ref_pad_data_flag self then ref_pad_data (ref_rows self) h
                       else (ref_rows self, h));
          (r, db') = atomic (insert_many_execute beh (ref_ModelType self) (map (dicts h1) rws)) db
      in case r of
           Some e \<Rightarrow> (Some e, (self\<lparr>ref_rows := rws\<rparr>, h1, db'))
         | None \<Rightarrow> (None, (self\<lparr>ref_rows := []\<rparr>, h1, db')))"

definition ref_insert ::
  "store_behaviour \<Rightarrow> addr \<Rightarrow> ref_world \<Rightarrow> py_exception option \<times> ref_world" where
  "ref_insert beh a w =
     (let self = fst w; h = fst (snd w); db = snd (snd w);
          self1 = self\<lparr>ref_rows := ref_rows self @ [a]\<rparr>
      in if int (length (ref_rows self1)) \<ge> ref_batch_size self1
         then ref_flush beh (self1, h, db)
         else (None, (self1, h, db)))"

datatype ref_call = Ref_Insert addr | Ref_Flush

fun ref_do_call :: "store_behaviour \<Rightarrow> ref_call \<Rightarrow> ref_world \<Rightarrow> py_exception option \<times> ref_world" where
  "ref_do_call beh (Ref_Insert a) w = ref_insert beh a w"
| "ref_do_call beh Ref_Flush w = ref_flush beh w"

fun ref_run :: "store_behaviour \<Rightarrow> ref_call list \<Rightarrow> ref_world \<Rightarrow> ref_world" where
  "ref_run beh [] w = w"
| "ref_run beh (c # cs) w = ref_run beh cs (snd (ref_do_call beh c w))"

text \<open>
  A heap \<open>h'\<close> preserves a heap \<open>h\<close> when every dictionary allocated in \<open>h\<close> has the same
  contents in \<open>h'\<close>. The abstraction of a state over the heap is the state over rows that
  reads every reference; a state is allocated when the references of its buffer are.
\<close>

definition preserves :: "heap \<Rightarrow> heap \<Rightarrow> bool" where
  "preserves h h' \<longleftrightarrow> next_free h \<le> next_free h' \<and> (\<forall>a<next_free h. dicts h' a = dicts h a)"

definition abstraction :: "ref_world \<Rightarrow> world" where
  "abstraction w =
     (\<lparr>rows = map (dicts (fst (snd w))) (ref_rows (fst w)),
       ModelType = ref_ModelType (fst w), batch_size = ref_batch_size (fst w),
       pad_data = ref_pad_data_flag (fst w)\<rparr>,
      snd (snd w))"

definition allocated :: "ref_world \<Rightarrow> bool" where
  "allocated w = list_all (\<lambda>a. a < next_free (fst (snd w))) (ref_rows (fst w))"

text \<open>A heap with two dictionaries of a caller, at the addresses 0 and 1.\<close>

definition example_heap :: heap where
  "example_heap =
     \<lparr>dicts = (\<lambda>a. Map.empty)(0 := [''a'' \<mapsto> PyInt 1], 1 := [''a'' \<mapsto> PyInt 2, ''b'' \<mapsto> PyInt 5]),
      next_free = 2\<rparr>"

section \<open>Properties of the padding\<close>

lemma fold_union_dom:
  "fold (\<lambda>row field_names. field_names \<union> dom row) batch A = A \<union> (\<Union>r\<in>set batch. dom r)"
  by (induction batch arbitrary: A) auto

lemma collect_field_names_eq:
  "collect_field_names batch = (\<Union>r\<in>set batch. dom r)"
  by (simp add: collect_field_names_def fold_union_dom)

lemma slot_loop_eq:
  "n \<le> length rs \<Longrightarrow>
   fold (\<lambda>i rs. rs[i := f (rs ! i)]) [0..<n] rs = map f (take n rs) @ drop n rs"
proof (induction n)
  case 0
  then show ?case by simp
next
  case (Suc n)
  then have n: "n < length rs" by simp
  have "(map f (take n rs) @ drop n rs)[n := f ((map f (take n rs) @ drop n rs) ! n)]
        = map f (take (Suc n) rs) @ drop (Suc n) rs"
    using n
    by (simp add: list_update_append nth_append take_Suc_conv_app_nth
        Cons_nth_drop_Suc [symmetric])
  with Suc show ?case by simp
qed

lemma pad_data_eq_map:
  "BatchInserter_pad_data batch =
     map (\<lambda>r. default_data (\<Union>r\<in>set batch. dom r) ++ r) batch"
  by (simp add: BatchInserter_pad_data_def Let_def slot_loop_eq collect_field_names_eq
      updated_data_def)

lemma length_pad_data [simp]:
  "length (BatchInserter_pad_data batch) = length batch"
  by (simp add: pad_data_eq_map)

lemma dom_default_data [simp]: "dom (default_data A) = A"
  by (auto simp: default_data_def dom_def)

text \<open>
  Claim C1. After the padding every row of the batch has the union of the field names of
  all rows of the batch as its field names; a field that the row did not have maps to
  \<open>None\<close>, and a field that the row had keeps its value. The batch keeps its length, and
  row \<open>i\<close> of the result stems from row \<open>i\<close> of the input.
\<close>

theorem pad_data_union:
  "length (BatchInserter_pad_data batch) = length batch \<and>
   (\<forall>i<length batch.
      dom (BatchInserter_pad_data batch ! i) = (\<Union>r\<in>set batch. dom r) \<and>
      (\<forall>k. k \<in> (\<Union>r\<in>set batch. dom r) \<and> k \<notin> dom (batch ! i) \<longrightarrow>
           (BatchInserter_pad_data batch ! i) k = Some PyNone) \<and>
      (\<forall>k. k \<in> dom (batch ! i) \<longrightarrow>
           (BatchInserter_pad_data batch ! i) k = (batch ! i) k))"
proof (intro conjI allI impI)
  show "length (BatchInserter_pad_data batch) = length batch" by simp
next
  fix i assume i: "i < length batch"
  then have "dom (batch ! i) \<subseteq> (\<Union>r\<in>set batch. dom r)"
    using nth_mem by blast
  with i show "dom (BatchInserter_pad_data batch ! i) = (\<Union>r\<in>set batch. dom r)"
    by (auto simp: pad_data_eq_map)
next
  fix i k
  assume "i < length batch"
    and "k \<in> (\<Union>r\<in>set batch. dom r) \<and> k \<notin> dom (batch ! i)"
  then show "(BatchInserter_pad_data batch ! i) k = Some PyNone"
    by (simp add: pad_data_eq_map map_add_def default_data_def domIff)
next
  fix i k
  assume "i < length batch" and "k \<in> dom (batch ! i)"
  then show "(BatchInserter_pad_data batch ! i) k = (batch ! i) k"
    by (auto simp: pad_data_eq_map map_add_def split: option.splits)
qed

theorem pad_data_union_witness:
  "(0::nat) < length [[''a'' \<mapsto> PyInt 1], [''a'' \<mapsto> PyInt 2, ''b'' \<mapsto> PyInt 5], [''a'' \<mapsto> PyInt 3]] \<and>
   ''b'' \<in> (\<Union>r\<in>set [[''a'' \<mapsto> PyInt 1], [''a'' \<mapsto> PyInt 2, ''b'' \<mapsto> PyInt 5], [''a'' \<mapsto> PyInt 3]]. dom r) \<and>
   ''b'' \<notin> dom ([[''a'' \<mapsto> PyInt 1], [''a'' \<mapsto> PyInt 2, ''b'' \<mapsto> PyInt 5], [''a'' \<mapsto> PyInt 3]] ! 0) \<and>
   ''a'' \<in> dom ([[''a'' \<mapsto> PyInt 1], [''a'' \<mapsto> PyInt 2, ''b'' \<mapsto> PyInt 5], [''a'' \<mapsto> PyInt 3]] ! 0) \<and>
   dom (BatchInserter_pad_data
     [[''a'' \<mapsto> PyInt 1], [''a'' \<mapsto> PyInt 2, ''b'' \<mapsto> PyInt 5], [''a'' \<mapsto> PyInt 3]] ! 0) = {''a'', ''b''} \<and>
   (BatchInserter_pad_data
     [[''a'' \<mapsto> PyInt 1], [''a'' \<mapsto> PyInt 2, ''b'' \<mapsto> PyInt 5], [''a'' \<mapsto> PyInt 3]] ! 0) ''b'' = Some PyNone \<and>
   (BatchInserter_pad_data
     [[''a'' \<mapsto> PyInt 1], [''a'' \<mapsto> PyInt 2, ''b'' \<mapsto> PyInt 5], [''a'' \<mapsto> PyInt 3]] ! 0) ''a'' = Some (PyInt 1)"
proof -
  let ?rows = "[[''a'' \<mapsto> PyInt 1], [''a'' \<mapsto> PyInt 2, ''b'' \<mapsto> PyInt 5], [''a'' \<mapsto> PyInt 3]]"
  have i: "(0::nat) < length ?rows" by simp
  have u: "(\<Union>r\<in>set ?rows. dom r) = {''a'', ''b''}" by auto
  have b: "''b'' \<in> (\<Union>r\<in>set ?rows. dom r) \<and> ''b'' \<notin> dom (?rows ! 0)" by simp
  have a: "''a'' \<in> dom (?rows ! 0)" by simp
  from pad_data_union [of ?rows] i
  have h: "dom (BatchInserter_pad_data ?rows ! 0) = (\<Union>r\<in>set ?rows. dom r) \<and>
      (\<forall>k. k \<in> (\<Union>r\<in>set ?rows. dom r) \<and> k \<notin> dom (?rows ! 0) \<longrightarrow>
           (BatchInserter_pad_data ?rows ! 0) k = Some PyNone) \<and>
      (\<forall>k. k \<in> dom (?rows ! 0) \<longrightarrow>
           (BatchInserter_pad_data ?rows ! 0) k = (?rows ! 0) k)"
    by blast
  from h b have hb: "(BatchInserter_pad_data ?rows ! 0) ''b'' = Some PyNone" by blast
  from h a have ha: "(BatchInserter_pad_data ?rows ! 0) ''a'' = (?rows ! 0) ''a''" by blast
  from h u have hd: "dom (BatchInserter_pad_data ?rows ! 0) = {''a'', ''b''}" by simp
  from i b a hd hb ha show ?thesis by simp
qed

lemma UN_dom_uniform:
  assumes u: "\<forall>r\<in>set batch. \<forall>r'\<in>set batch. dom r = dom r'" and r: "r \<in> set batch"
  shows "(\<Union>r\<in>set batch. dom r) = dom r"
proof (rule equalityI)
  show "(\<Union>r\<in>set batch. dom r) \<subseteq> dom r"
  proof (rule UN_least)
    fix x assume x: "x \<in> set batch"
    from u x have "\<forall>r'\<in>set batch. dom x = dom r'" by (rule bspec)
    from this r have "dom x = dom r" by (rule bspec)
    then show "dom x \<subseteq> dom r" by (rule equalityD1)
  qed
  from r show "dom r \<subseteq> (\<Union>r\<in>set batch. dom r)" by (rule UN_upper)
qed

lemma default_data_add_same:
  "default_data (dom r) ++ r = r"
proof (rule ext)
  fix k
  show "(default_data (dom r) ++ r) k = r k"
    by (cases "r k") (simp_all add: map_add_def default_data_def domIff)
qed

lemma pad_data_uniform:
  assumes "\<forall>r\<in>set batch. \<forall>r'\<in>set batch. dom r = dom r'"
  shows "BatchInserter_pad_data batch = batch"
proof -
  have "default_data (\<Union>r\<in>set batch. dom r) ++ r = r" if r: "r \<in> set batch" for r
    by (simp only: UN_dom_uniform [OF assms r] default_data_add_same)
  then have "map (\<lambda>r. default_data (\<Union>r\<in>set batch. dom r) ++ r) batch = batch"
    by (rule map_idI)
  then show ?thesis
    by (simp only: pad_data_eq_map)
qed

lemma dom_pad_data:
  assumes "r \<in> set (BatchInserter_pad_data batch)"
  shows "dom r = (\<Union>r\<in>set batch. dom r)"
proof -
  from assms have "r \<in> (\<lambda>r. default_data (\<Union>r\<in>set batch. dom r) ++ r) ` set batch"
    by (simp only: pad_data_eq_map set_map)
  then obtain x where x: "x \<in> set batch"
    and r: "r = default_data (\<Union>r\<in>set batch. dom r) ++ x"
    by (rule imageE)
  from x have "dom x \<subseteq> (\<Union>r\<in>set batch. dom r)" by (rule UN_upper)
  then have "dom x \<union> (\<Union>r\<in>set batch. dom r) = (\<Union>r\<in>set batch. dom r)"
    by (rule Un_absorb1)
  with r show ?thesis by (simp only: dom_map_add dom_default_data)
qed

lemma pad_data_pad_data:
  "BatchInserter_pad_data (BatchInserter_pad_data batch) = BatchInserter_pad_data batch"
proof (rule pad_data_uniform, intro ballI)
  fix r r'
  assume "r \<in> set (BatchInserter_pad_data batch)" and "r' \<in> set (BatchInserter_pad_data batch)"
  then show "dom r = dom r'"
    by (simp only: dom_pad_data [of r batch] dom_pad_data [of r' batch])
qed

text \<open>
  Claim C7. The padding is idempotent: a batch whose rows all have the same field names
  comes back unchanged, and so does the result of an earlier padding.
\<close>

theorem pad_data_idempotent:
  "((\<forall>r\<in>set batch. \<forall>r'\<in>set batch. dom r = dom r') \<longrightarrow>
      BatchInserter_pad_data batch = batch) \<and>
   BatchInserter_pad_data (BatchInserter_pad_data batch) = BatchInserter_pad_data batch"
proof (intro conjI impI)
  assume "\<forall>r\<in>set batch. \<forall>r'\<in>set batch. dom r = dom r'"
  then show "BatchInserter_pad_data batch = batch" by (rule pad_data_uniform)
next
  show "BatchInserter_pad_data (BatchInserter_pad_data batch) = BatchInserter_pad_data batch"
    by (rule pad_data_pad_data)
qed

theorem pad_data_idempotent_witness:
  "dom [''a'' \<mapsto> PyInt 1, ''b'' \<mapsto> PyNone] = dom [''a'' \<mapsto> PyInt 2, ''b'' \<mapsto> PyInt 5] \<and>
   BatchInserter_pad_data [[''a'' \<mapsto> PyInt 1, ''b'' \<mapsto> PyNone], [''a'' \<mapsto> PyInt 2, ''b'' \<mapsto> PyInt 5]]
     = [[''a'' \<mapsto> PyInt 1, ''b'' \<mapsto> PyNone], [''a'' \<mapsto> PyInt 2, ''b'' \<mapsto> PyInt 5]]"
proof -
  let ?rows = "[[''a'' \<mapsto> PyInt 1, ''b'' \<mapsto> PyNone], [''a'' \<mapsto> PyInt 2, ''b'' \<mapsto> PyInt 5]]"
  have d: "dom [''a'' \<mapsto> PyInt 1, ''b'' \<mapsto> PyNone] = dom [''a'' \<mapsto> PyInt 2, ''b'' \<mapsto> PyInt 5]"
    by simp
  have u: "\<forall>r\<in>set ?rows. \<forall>r'\<in>set ?rows. dom r = dom r'" by simp
  have imp: "(\<forall>r\<in>set ?rows. \<forall>r'\<in>set ?rows. dom r = dom r') \<longrightarrow>
      BatchInserter_pad_data ?rows = ?rows"
    by (rule conjunct1 [OF pad_data_idempotent [of ?rows]])
  from imp u have e: "BatchInserter_pad_data ?rows = ?rows" by (rule mp)
  from d e show ?thesis by (rule conjI)
qed

section \<open>Properties of \<open>flush\<close> and \<open>insert\<close>\<close>

lemma flush_Accept:
  assumes "beh (db\<lparr>atomic_opened := Suc (atomic_opened db)\<rparr>) (ModelType self) (flush_batch self) = Accept"
  shows "BatchInserter_flush beh (self, db) =
    (None, (self\<lparr>rows := []\<rparr>,
       db\<lparr>atomic_opened := Suc (atomic_opened db),
          bulk_inserts := bulk_inserts db @ [(ModelType self, flush_batch self)],
          table := table db @ map (Pair (ModelType self)) (flush_batch self)\<rparr>))"
  using assms
  by (cases "pad_data self")
    (simp_all add: BatchInserter_flush_def atomic_def insert_many_execute_def flush_batch_def
      Let_def)

lemma flush_Reject:
  assumes "beh (db\<lparr>atomic_opened := Suc (atomic_opened db)\<rparr>) (ModelType self) (flush_batch self) = Reject e k"
  shows "BatchInserter_flush beh (self, db) =
    (Some e, (self\<lparr>rows := flush_batch self\<rparr>,
       db\<lparr>atomic_opened := Suc (atomic_opened db),
          bulk_inserts := bulk_inserts db @ [(ModelType self, flush_batch self)]\<rparr>))"
  using assms
  by (cases "pad_data self")
    (simp_all add: BatchInserter_flush_def atomic_def insert_many_execute_def flush_batch_def
      Let_def)

lemma insert_no_flush:
  assumes "int (length (rows self)) + 1 < batch_size self"
  shows "BatchInserter_insert beh row (self, db) = (None, (self\<lparr>rows := rows self @ [row]\<rparr>, db))"
  using assms by (simp add: BatchInserter_insert_def Let_def)

lemma insert_flush:
  assumes "batch_size self \<le> int (length (rows self)) + 1"
  shows "BatchInserter_insert beh row (self, db) =
     BatchInserter_flush beh (self\<lparr>rows := rows self @ [row]\<rparr>, db)"
  using assms by (simp add: BatchInserter_insert_def Let_def)

lemma pad_data_map_le: "list_all2 (\<subseteq>\<^sub>m) batch (BatchInserter_pad_data batch)"
  by (simp add: pad_data_eq_map list_all2_conv_all_nth map_le_map_add)

lemma flush_batch_map_le: "list_all2 (\<subseteq>\<^sub>m) (rows self) (flush_batch self)"
  by (simp add: flush_batch_def pad_data_map_le list_all2_refl)

lemma length_flush_batch [simp]: "length (flush_batch self) = length (rows self)"
  by (simp add: flush_batch_def)

lemma flush_batch_retry [simp]:
  "flush_batch (self\<lparr>rows := flush_batch self\<rparr>) = flush_batch self"
  by (simp add: flush_batch_def pad_data_pad_data)

text \<open>
  Claim C3. When the bulk insert raises inside \<open>flush\<close>, the caller gets that exception, the
  table of the store is what it was before the call, and the inserter still holds every
  row of the batch, in the form in which the batch went to the store (padded when the
  inserter pads). A later \<open>flush\<close> that the store accepts commits exactly that batch, each
  row once, after the rows that were committed before.
\<close>

theorem flush_failure_retains_rows:
  assumes fails: "beh (db\<lparr>atomic_opened := Suc (atomic_opened db)\<rparr>) (ModelType self)
                    (flush_batch self) = Reject e k"
    and result: "BatchInserter_flush beh (self, db) = (res, (self', db'))"
  shows "res = Some e \<and> table db' = table db \<and>
         rows self' = flush_batch self \<and> length (rows self') = length (rows self) \<and>
         list_all2 (\<subseteq>\<^sub>m) (rows self) (rows self') \<and>
         (beh (db'\<lparr>atomic_opened := Suc (atomic_opened db')\<rparr>) (ModelType self')
              (flush_batch self') = Accept \<longrightarrow>
           fst (BatchInserter_flush beh (self', db')) = None \<and>
           rows (fst (snd (BatchInserter_flush beh (self', db')))) = [] \<and>
           table (snd (snd (BatchInserter_flush beh (self', db')))) =
             table db @ map (Pair (ModelType self)) (flush_batch self))"
proof -
  from flush_Reject [where beh=beh and db=db and self=self, OF fails] result
  have res: "res = Some e" and self': "self' = self\<lparr>rows := flush_batch self\<rparr>"
    and db': "db' = db\<lparr>atomic_opened := Suc (atomic_opened db),
          bulk_inserts := bulk_inserts db @ [(ModelType self, flush_batch self)]\<rparr>"
    by simp_all
  have retry: "fst (BatchInserter_flush beh (self', db')) = None \<and>
           rows (fst (snd (BatchInserter_flush beh (self', db')))) = [] \<and>
           table (snd (snd (BatchInserter_flush beh (self', db')))) =
             table db @ map (Pair (ModelType self)) (flush_batch self)"
    if ok: "beh (db'\<lparr>atomic_opened := Suc (atomic_opened db')\<rparr>) (ModelType self')
              (flush_batch self') = Accept"
    using flush_Accept [where beh=beh and db=db' and self=self', OF ok] by (simp add: self' db')
  from res self' db' retry show ?thesis
    by (simp add: flush_batch_map_le)
qed

lemma flaky_Accept: "bulk_inserts db \<noteq> [] \<Longrightarrow> flaky db M batch = Accept"
  by (simp add: flaky_def)

lemma flaky_Reject:
  "bulk_inserts db = [] \<Longrightarrow> flaky db M batch = Reject (Exception ''connection lost'') 1"
  by (simp add: flaky_def)

theorem flush_failure_retains_rows_witness:
  "flaky (empty_store\<lparr>atomic_opened := Suc (atomic_opened empty_store)\<rparr>) ''Post''
      (flush_batch \<lparr>rows = [[''a'' \<mapsto> PyInt 1], [''a'' \<mapsto> PyInt 2, ''b'' \<mapsto> PyInt 5]],
          ModelType = ''Post'', batch_size = 10, pad_data = True\<rparr>)
     = Reject (Exception ''connection lost'') 1 \<and>
   fst (BatchInserter_flush flaky
      (\<lparr>rows = [[''a'' \<mapsto> PyInt 1], [''a'' \<mapsto> PyInt 2, ''b'' \<mapsto> PyInt 5]],
          ModelType = ''Post'', batch_size = 10, pad_data = True\<rparr>, empty_store))
     = Some (Exception ''connection lost'') \<and>
   table (snd (snd (BatchInserter_flush flaky
      (\<lparr>rows = [[''a'' \<mapsto> PyInt 1], [''a'' \<mapsto> PyInt 2, ''b'' \<mapsto> PyInt 5]],
          ModelType = ''Post'', batch_size = 10, pad_data = True\<rparr>, empty_store)))) = [] \<and>
   length (rows (fst (snd (BatchInserter_flush flaky
      (\<lparr>rows = [[''a'' \<mapsto> PyInt 1], [''a'' \<mapsto> PyInt 2, ''b'' \<mapsto> PyInt 5]],
          ModelType = ''Post'', batch_size = 10, pad_data = True\<rparr>, empty_store))))) = 2 \<and>
   table (snd (snd (BatchInserter_flush flaky (snd (BatchInserter_flush flaky
      (\<lparr>rows = [[''a'' \<mapsto> PyInt 1], [''a'' \<mapsto> PyInt 2, ''b'' \<mapsto> PyInt 5]],
          ModelType = ''Post'', batch_size = 10, pad_data = True\<rparr>, empty_store))))))
     = map (Pair ''Post'')
        (BatchInserter_pad_data [[''a'' \<mapsto> PyInt 1], [''a'' \<mapsto> PyInt 2, ''b'' \<mapsto> PyInt 5]])"
proof -
  let ?S = "\<lparr>rows = [[''a'' \<mapsto> PyInt 1], [''a'' \<mapsto> PyInt 2, ''b'' \<mapsto> PyInt 5]],
          ModelType = ''Post'', batch_size = 10, pad_data = True\<rparr>"
  let ?X = "BatchInserter_flush flaky (?S, empty_store)"
  have fails: "flaky (empty_store\<lparr>atomic_opened := Suc (atomic_opened empty_store)\<rparr>)
      (ModelType ?S) (flush_batch ?S) = Reject (Exception ''connection lost'') 1"
    by (simp add: flaky_Reject empty_store_def)
  have result: "?X = (fst ?X, (fst (snd ?X), snd (snd ?X)))" by simp
  note th = flush_failure_retains_rows
    [where beh=flaky and db=empty_store and self="?S", OF fails result]
  have X: "?X = (Some (Exception ''connection lost''), (?S\<lparr>rows := flush_batch ?S\<rparr>,
       empty_store\<lparr>atomic_opened := Suc (atomic_opened empty_store),
          bulk_inserts := bulk_inserts empty_store @ [(ModelType ?S, flush_batch ?S)]\<rparr>))"
    by (rule flush_Reject [where beh=flaky and db=empty_store and self="?S", OF fails])
  have ok: "flaky ((snd (snd ?X))\<lparr>atomic_opened := Suc (atomic_opened (snd (snd ?X)))\<rparr>)
      (ModelType (fst (snd ?X))) (flush_batch (fst (snd ?X))) = Accept"
    by (simp add: X flaky_Accept)
  from th have 1: "fst ?X = Some (Exception ''connection lost'')" by (rule conjunct1)
  from th have 2: "table (snd (snd ?X)) = table empty_store" by blast
  from th have 3: "length (rows (fst (snd ?X))) = length (rows ?S)" by blast
  from th ok have 4: "table (snd (snd (BatchInserter_flush flaky (fst (snd ?X), snd (snd ?X))))) =
             table empty_store @ map (Pair (ModelType ?S)) (flush_batch ?S)" by blast
  have fb: "flush_batch ?S = BatchInserter_pad_data (rows ?S)" by (simp add: flush_batch_def)
  from fails 1 2 3 4 show ?thesis
    by (simp add: empty_store_def fb)
qed

lemma flush_batch_Nil: "rows self = [] \<Longrightarrow> flush_batch self = []"
  by (simp add: flush_batch_def pad_data_eq_map)

lemma flush_cases:
  obtains (accept) "beh (db\<lparr>atomic_opened := Suc (atomic_opened db)\<rparr>) (ModelType self)
                      (flush_batch self) = Accept"
      "BatchInserter_flush beh (self, db) =
        (None, (self\<lparr>rows := []\<rparr>,
           db\<lparr>atomic_opened := Suc (atomic_opened db),
              bulk_inserts := bulk_inserts db @ [(ModelType self, flush_batch self)],
              table := table db @ map (Pair (ModelType self)) (flush_batch self)\<rparr>))"
  | (reject) e k where "beh (db\<lparr>atomic_opened := Suc (atomic_opened db)\<rparr>) (ModelType self)
                      (flush_batch self) = Reject e k"
      "BatchInserter_flush beh (self, db) =
        (Some e, (self\<lparr>rows := flush_batch self\<rparr>,
           db\<lparr>atomic_opened := Suc (atomic_opened db),
              bulk_inserts := bulk_inserts db @ [(ModelType self, flush_batch self)]\<rparr>))"
proof (cases "beh (db\<lparr>atomic_opened := Suc (atomic_opened db)\<rparr>) (ModelType self)
                      (flush_batch self)")
  case Accept
  with flush_Accept [where beh=beh and db=db and self=self] accept show ?thesis by blast
next
  case (Reject e k)
  with flush_Reject [where beh=beh and db=db and self=self] reject show ?thesis by blast
qed

text \<open>
  Claim C4, as amended. \<open>flush\<close> has no test for an empty buffer: on an empty buffer it
  opens one atomic scope and issues one bulk insert of the empty batch. The buffer stays
  empty, and the call raises exactly when the store raises on the empty batch, with the
  exception of the store.
\<close>

theorem flush_empty_buffer:
  assumes empty: "rows self = []"
    and result: "BatchInserter_flush beh (self, db) = (res, (self', db'))"
  shows "atomic_opened db' = Suc (atomic_opened db) \<and>
         bulk_inserts db' = bulk_inserts db @ [(ModelType self, [])] \<and>
         rows self' = [] \<and>
         res = (case beh (db\<lparr>atomic_opened := Suc (atomic_opened db)\<rparr>) (ModelType self) [] of
                  Accept \<Rightarrow> None | Reject e k \<Rightarrow> Some e)"
proof (cases rule: flush_cases [of beh db self])
  case accept
  with result empty show ?thesis by (auto simp: flush_batch_Nil)
next
  case (reject e k)
  with result empty show ?thesis by (auto simp: flush_batch_Nil)
qed

text \<open>
  Claim C4 as stated fails: a \<open>flush\<close> on an empty buffer against a store that accepts
  everything opens an atomic scope and issues a bulk insert.
\<close>

theorem flush_empty_buffer_counterexample:
  "atomic_opened (snd (snd (BatchInserter_flush healthy
      (\<lparr>rows = [], ModelType = ''Post'', batch_size = 3, pad_data = False\<rparr>, empty_store)))) = 1 \<and>
   bulk_inserts (snd (snd (BatchInserter_flush healthy
      (\<lparr>rows = [], ModelType = ''Post'', batch_size = 3, pad_data = False\<rparr>, empty_store))))
     = [(''Post'', [])] \<and>
   snd (snd (BatchInserter_flush healthy
      (\<lparr>rows = [], ModelType = ''Post'', batch_size = 3, pad_data = False\<rparr>, empty_store)))
     \<noteq> empty_store"
  by (simp add: BatchInserter_flush_def atomic_def insert_many_execute_def healthy_def
      empty_store_def Let_def)

theorem flush_empty_buffer_witness:
  "rows \<lparr>rows = [], ModelType = ''Seed'', batch_size = 10, pad_data = True\<rparr> = [] \<and>
   atomic_opened (snd (snd (BatchInserter_flush flaky
      (\<lparr>rows = [], ModelType = ''Seed'', batch_size = 10, pad_data = True\<rparr>, empty_store))))
     = Suc (atomic_opened empty_store) \<and>
   rows (fst (snd (BatchInserter_flush flaky
      (\<lparr>rows = [], ModelType = ''Seed'', batch_size = 10, pad_data = True\<rparr>, empty_store)))) = [] \<and>
   fst (BatchInserter_flush flaky
      (\<lparr>rows = [], ModelType = ''Seed'', batch_size = 10, pad_data = True\<rparr>, empty_store))
     = Some (Exception ''connection lost'')"
proof -
  let ?S = "\<lparr>rows = [], ModelType = ''Seed'', batch_size = 10, pad_data = True\<rparr>"
  let ?X = "BatchInserter_flush flaky (?S, empty_store)"
  have empty: "rows ?S = []" by simp
  have result: "?X = (fst ?X, (fst (snd ?X), snd (snd ?X)))" by simp
  note th = flush_empty_buffer [where beh=flaky and db=empty_store and self="?S", OF empty result]
  from th have a: "atomic_opened (snd (snd ?X)) = Suc (atomic_opened empty_store)" by (rule conjunct1)
  from th have r: "rows (fst (snd ?X)) = []" by blast
  from th have "fst ?X = (case flaky (empty_store\<lparr>atomic_opened := Suc (atomic_opened empty_store)\<rparr>)
      (ModelType ?S) [] of Accept \<Rightarrow> None | Reject e k \<Rightarrow> Some e)" by blast
  then have e: "fst ?X = Some (Exception ''connection lost'')"
    by (simp add: flaky_def empty_store_def)
  from empty a r e show ?thesis by (intro conjI)
qed

text \<open>
  Claim C5, as amended. \<open>__init__\<close> checks nothing: the construction succeeds for every
  batch size, zero and the negative ones included, and stores the size as it is.
\<close>

theorem init_never_fails:
  "BatchInserter_init model_type bsize fill_missing_fields =
     Inr \<lparr>rows = [], ModelType = model_type, batch_size = bsize,
          pad_data = fill_missing_fields\<rparr>"
  by (simp add: BatchInserter_init_def)

text \<open>
  Claim C5 as stated fails: the batch sizes \<open>0\<close> and \<open>-5\<close> are accepted.
\<close>

theorem init_rejects_counterexample:
  "BatchInserter_init ''Post'' 0 False =
     Inr \<lparr>rows = [], ModelType = ''Post'', batch_size = 0, pad_data = False\<rparr> \<and>
   \<not> (\<exists>e. BatchInserter_init ''Post'' 0 False = Inl e) \<and>
   BatchInserter_init ''Post'' (- 5) True =
     Inr \<lparr>rows = [], ModelType = ''Post'', batch_size = - 5, pad_data = True\<rparr> \<and>
   \<not> (\<exists>e. BatchInserter_init ''Post'' (- 5) True = Inl e)"
  by (simp add: BatchInserter_init_def)

text \<open>
  Claim C6. For a batch size of at least one and any state of the inserter and the
  store: after an \<open>insert\<close> that returned normally and opened no atomic scope, the buffer
  holds at most \<open>batch_size - 1\<close> rows; and whenever the buffer holds \<open>batch_size\<close> rows or
  more after an \<open>insert\<close>, that call attempted a flush of exactly these rows, and the
  store raised.
\<close>

theorem insert_buffer_bound:
  assumes size: "1 \<le> batch_size self"
    and result: "BatchInserter_insert beh row (self, db) = (res, (self', db'))"
  shows "batch_size self' = batch_size self \<and>
     (res = None \<and> atomic_opened db' = atomic_opened db \<longrightarrow>
        int (length (rows self')) \<le> batch_size self - 1) \<and>
     (batch_size self \<le> int (length (rows self')) \<longrightarrow>
        res \<noteq> None \<and> atomic_opened db' = Suc (atomic_opened db) \<and>
        bulk_inserts db' = bulk_inserts db @ [(ModelType self, rows self')])"
proof (cases "batch_size self \<le> int (length (rows self)) + 1")
  case False
  then have "BatchInserter_insert beh row (self, db) =
      (None, (self\<lparr>rows := rows self @ [row]\<rparr>, db))"
    by (simp add: insert_no_flush)
  with result False show ?thesis by auto
next
  case True
  let ?self1 = "self\<lparr>rows := rows self @ [row]\<rparr>"
  from True have ins: "BatchInserter_insert beh row (self, db) = BatchInserter_flush beh (?self1, db)"
    by (rule insert_flush)
  show ?thesis
  proof (cases rule: flush_cases [of beh db ?self1])
    case accept
    with ins result size show ?thesis by auto
  next
    case (reject e k)
    with ins result size True show ?thesis by auto
  qed
qed

theorem insert_buffer_bound_witness:
  "1 \<le> batch_size \<lparr>rows = [[''a'' \<mapsto> PyInt 1]], ModelType = ''Post'', batch_size = 3, pad_data = False\<rparr> \<and>
   fst (BatchInserter_insert healthy [''a'' \<mapsto> PyInt 2]
      (\<lparr>rows = [[''a'' \<mapsto> PyInt 1]], ModelType = ''Post'', batch_size = 3, pad_data = False\<rparr>,
       empty_store)) = None \<and>
   atomic_opened (snd (snd (BatchInserter_insert healthy [''a'' \<mapsto> PyInt 2]
      (\<lparr>rows = [[''a'' \<mapsto> PyInt 1]], ModelType = ''Post'', batch_size = 3, pad_data = False\<rparr>,
       empty_store)))) = atomic_opened empty_store \<and>
   int (length (rows (fst (snd (BatchInserter_insert healthy [''a'' \<mapsto> PyInt 2]
      (\<lparr>rows = [[''a'' \<mapsto> PyInt 1]], ModelType = ''Post'', batch_size = 3, pad_data = False\<rparr>,
       empty_store)))))) \<le> 3 - 1 \<and>
   1 \<le> batch_size \<lparr>rows = [], ModelType = ''Post'', batch_size = 1, pad_data = False\<rparr> \<and>
   batch_size \<lparr>rows = [], ModelType = ''Post'', batch_size = 1, pad_data = False\<rparr>
     \<le> int (length (rows (fst (snd (BatchInserter_insert flaky [''a'' \<mapsto> PyInt 2]
      (\<lparr>rows = [], ModelType = ''Post'', batch_size = 1, pad_data = False\<rparr>, empty_store)))))) \<and>
   fst (BatchInserter_insert flaky [''a'' \<mapsto> PyInt 2]
      (\<lparr>rows = [], ModelType = ''Post'', batch_size = 1, pad_data = False\<rparr>, empty_store)) \<noteq> None \<and>
   atomic_opened (snd (snd (BatchInserter_insert flaky [''a'' \<mapsto> PyInt 2]
      (\<lparr>rows = [], ModelType = ''Post'', batch_size = 1, pad_data = False\<rparr>, empty_store))))
     = Suc (atomic_opened empty_store)"
proof -
  let ?S = "\<lparr>rows = [[''a'' \<mapsto> PyInt 1]], ModelType = ''Post'', batch_size = 3, pad_data = False\<rparr>"
  let ?X = "BatchInserter_insert healthy [''a'' \<mapsto> PyInt 2] (?S, empty_store)"
  let ?T = "\<lparr>rows = [], ModelType = ''Post'', batch_size = 1, pad_data = False\<rparr>"
  let ?Y = "BatchInserter_insert flaky [''a'' \<mapsto> PyInt 2] (?T, empty_store)"
  have s1: "1 \<le> batch_size ?S" by simp
  have r1: "?X = (fst ?X, (fst (snd ?X), snd (snd ?X)))" by simp
  have X: "?X = (None, (?S\<lparr>rows := rows ?S @ [[''a'' \<mapsto> PyInt 2]]\<rparr>, empty_store))"
    by (rule insert_no_flush) simp
  then have n1: "fst ?X = None" and a1: "atomic_opened (snd (snd ?X)) = atomic_opened empty_store"
    by simp_all
  from insert_buffer_bound [where beh=healthy and db=empty_store and self="?S", OF s1 r1] n1 a1
  have b1: "int (length (rows (fst (snd ?X)))) \<le> batch_size ?S - 1" by blast
  have s2: "1 \<le> batch_size ?T" by simp
  have r2: "?Y = (fst ?Y, (fst (snd ?Y), snd (snd ?Y)))" by simp
  have "?Y = BatchInserter_flush flaky (?T\<lparr>rows := rows ?T @ [[''a'' \<mapsto> PyInt 2]]\<rparr>, empty_store)"
    by (rule insert_flush) simp
  also have "\<dots> = (Some (Exception ''connection lost''),
       (?T\<lparr>rows := [[''a'' \<mapsto> PyInt 2]]\<rparr>,
        empty_store\<lparr>atomic_opened := Suc (atomic_opened empty_store),
          bulk_inserts := bulk_inserts empty_store @ [(''Post'', [[''a'' \<mapsto> PyInt 2]])]\<rparr>))"
    using flush_Reject [where beh=flaky and db=empty_store
        and self="?T\<lparr>rows := rows ?T @ [[''a'' \<mapsto> PyInt 2]]\<rparr>"
        and e="Exception ''connection lost''" and k=1]
    by (simp add: flaky_Reject empty_store_def flush_batch_def)
  finally have l2: "batch_size ?T \<le> int (length (rows (fst (snd ?Y))))" by simp
  from insert_buffer_bound [where beh=flaky and db=empty_store and self="?T", OF s2 r2] l2
  have b2: "fst ?Y \<noteq> None \<and> atomic_opened (snd (snd ?Y)) = Suc (atomic_opened empty_store)"
    by blast
  from s1 n1 a1 b1 s2 l2 b2 show ?thesis by simp
qed

lemma healthy_Accept: "healthy db M batch = Accept"
  by (simp add: healthy_def)

lemma insert_flush_healthy:
  assumes "batch_size self \<le> int (length (rows self)) + 1"
  shows "BatchInserter_insert healthy row (self, db) =
    (None, (self\<lparr>rows := []\<rparr>,
       db\<lparr>atomic_opened := Suc (atomic_opened db),
          bulk_inserts := bulk_inserts db @
            [(ModelType self, flush_batch (self\<lparr>rows := rows self @ [row]\<rparr>))],
          table := table db @
            map (Pair (ModelType self)) (flush_batch (self\<lparr>rows := rows self @ [row]\<rparr>))\<rparr>))"
  using flush_Accept [where beh=healthy and db=db and self="self\<lparr>rows := rows self @ [row]\<rparr>",
      OF healthy_Accept]
  by (simp add: insert_flush [OF assms])

lemma div_add_self_Suc: "0 < (b::nat) \<Longrightarrow> (b + n) div b = Suc (n div b)"
  using div_add_self1 [of b n] by simp

lemma run_inserts_healthy:
  assumes "1 \<le> batch_size self" and "int (length (rows self)) < batch_size self"
  shows "batch_size (fst (run healthy (map Insert rs) (self, db))) = batch_size self \<and>
     length (rows (fst (run healthy (map Insert rs) (self, db)))) =
       (length (rows self) + length rs) mod nat (batch_size self) \<and>
     atomic_opened (snd (run healthy (map Insert rs) (self, db))) =
       atomic_opened db + (length (rows self) + length rs) div nat (batch_size self) \<and>
     length (bulk_inserts (snd (run healthy (map Insert rs) (self, db)))) =
       length (bulk_inserts db) + (length (rows self) + length rs) div nat (batch_size self)"
  using assms
proof (induction rs arbitrary: self db)
  case Nil
  then have "length (rows self) < nat (batch_size self)" by linarith
  then show ?case by simp
next
  case (Cons r rs)
  let ?b = "nat (batch_size self)"
  from Cons.prems have b: "0 < ?b" and len: "length (rows self) < ?b" by linarith+
  show ?case
  proof (cases "batch_size self \<le> int (length (rows self)) + 1")
    case False
    let ?self1 = "self\<lparr>rows := rows self @ [r]\<rparr>"
    from False have step: "BatchInserter_insert healthy r (self, db) = (None, (?self1, db))"
      by (simp add: insert_no_flush)
    from False Cons.prems have p: "1 \<le> batch_size ?self1"
      "int (length (rows ?self1)) < batch_size ?self1" by simp_all
    from Cons.IH [OF p, of db] step show ?thesis by simp
  next
    case True
    let ?self2 = "self\<lparr>rows := []\<rparr>"
    let ?db2 = "db\<lparr>atomic_opened := Suc (atomic_opened db),
          bulk_inserts := bulk_inserts db @
            [(ModelType self, flush_batch (self\<lparr>rows := rows self @ [r]\<rparr>))],
          table := table db @
            map (Pair (ModelType self)) (flush_batch (self\<lparr>rows := rows self @ [r]\<rparr>))\<rparr>"
    from True have step: "BatchInserter_insert healthy r (self, db) = (None, (?self2, ?db2))"
      by (rule insert_flush_healthy)
    from True len have full: "Suc (length (rows self)) = ?b" by linarith
    from Cons.prems have p: "1 \<le> batch_size ?self2"
      "int (length (rows ?self2)) < batch_size ?self2" by simp_all
    have eq: "length (rows self) + length (r # rs) = ?b + length rs" using full by simp
    have m: "(length (rows self) + length (r # rs)) mod ?b = length rs mod ?b"
      unfolding eq by simp
    have "(?b + length rs) div ?b = Suc (length rs div ?b)"
      using b by (rule div_add_self_Suc)
    then have d: "(length (rows self) + length (r # rs)) div ?b = Suc (length rs div ?b)"
      unfolding eq .
    from Cons.IH [OF p, of ?db2] step show ?thesis
      by (simp only: m d) simp
  qed
qed

text \<open>
  Claim C2. On a fresh inserter with a batch size \<open>B\<close> of at least one and a store that
  accepts every bulk insert, \<open>N\<close> calls of \<open>insert\<close> open \<open>N div B\<close> atomic scopes and issue
  \<open>N div B\<close> bulk inserts, and leave \<open>N mod B\<close> rows in the buffer.
\<close>

theorem automatic_flush_count:
  assumes size: "1 \<le> bsize"
    and init: "BatchInserter_init M bsize f = Inr self0"
  shows "atomic_opened (snd (run healthy (map Insert rs) (self0, db))) =
       atomic_opened db + length rs div nat bsize \<and>
     length (bulk_inserts (snd (run healthy (map Insert rs) (self0, db)))) =
       length (bulk_inserts db) + length rs div nat bsize \<and>
     length (rows (fst (run healthy (map Insert rs) (self0, db)))) = length rs mod nat bsize"
proof -
  from init have s0: "self0 = \<lparr>rows = [], ModelType = M, batch_size = bsize, pad_data = f\<rparr>"
    by (simp add: BatchInserter_init_def)
  with size have p: "1 \<le> batch_size self0" "int (length (rows self0)) < batch_size self0"
    by simp_all
  from run_inserts_healthy [OF p, of rs db] show ?thesis by (simp add: s0)
qed

theorem automatic_flush_count_witness:
  "(1::int) \<le> 3 \<and>
   BatchInserter_init ''Post'' 3 True =
     Inr \<lparr>rows = [], ModelType = ''Post'', batch_size = 3, pad_data = True\<rparr> \<and>
   atomic_opened (snd (run healthy
      (map Insert [[''a'' \<mapsto> PyInt 1], [''a'' \<mapsto> PyInt 2, ''b'' \<mapsto> PyInt 5], [''a'' \<mapsto> PyInt 3],
                   [''c'' \<mapsto> PyStr ''x'']])
      (\<lparr>rows = [], ModelType = ''Post'', batch_size = 3, pad_data = True\<rparr>, empty_store))) = 1 \<and>
   length (bulk_inserts (snd (run healthy
      (map Insert [[''a'' \<mapsto> PyInt 1], [''a'' \<mapsto> PyInt 2, ''b'' \<mapsto> PyInt 5], [''a'' \<mapsto> PyInt 3],
                   [''c'' \<mapsto> PyStr ''x'']])
      (\<lparr>rows = [], ModelType = ''Post'', batch_size = 3, pad_data = True\<rparr>, empty_store)))) = 1 \<and>
   length (rows (fst (run healthy
      (map Insert [[''a'' \<mapsto> PyInt 1], [''a'' \<mapsto> PyInt 2, ''b'' \<mapsto> PyInt 5], [''a'' \<mapsto> PyInt 3],
                   [''c'' \<mapsto> PyStr ''x'']])
      (\<lparr>rows = [], ModelType = ''Post'', batch_size = 3, pad_data = True\<rparr>, empty_store)))) = 1"
proof -
  let ?rs = "[[''a'' \<mapsto> PyInt 1], [''a'' \<mapsto> PyInt 2, ''b'' \<mapsto> PyInt 5], [''a'' \<mapsto> PyInt 3],
                   [''c'' \<mapsto> PyStr ''x'']]"
  let ?S = "\<lparr>rows = [], ModelType = ''Post'', batch_size = 3, pad_data = True\<rparr>"
  have size: "(1::int) \<le> 3" by simp
  have init: "BatchInserter_init ''Post'' 3 True = Inr ?S" by (simp add: BatchInserter_init_def)
  have n: "length ?rs = 4" by simp
  have d: "(4::nat) div nat 3 = 1" "(4::nat) mod nat 3 = 1" by simp_all
  from automatic_flush_count [OF size init, of ?rs empty_store]
  have "atomic_opened (snd (run healthy (map Insert ?rs) (?S, empty_store))) =
       atomic_opened empty_store + 1 \<and>
     length (bulk_inserts (snd (run healthy (map Insert ?rs) (?S, empty_store)))) =
       length (bulk_inserts empty_store) + 1 \<and>
     length (rows (fst (run healthy (map Insert ?rs) (?S, empty_store)))) = 1"
    by (simp only: n d)
  with size init show ?thesis by (simp add: empty_store_def)
qed

lemma pad_data_single: "BatchInserter_pad_data [r] = [r]"
  by (simp add: pad_data_eq_map default_data_add_same)

lemma flush_batch_single: "flush_batch (self\<lparr>rows := [r]\<rparr>) = [r]"
  by (simp add: flush_batch_def pad_data_single)

lemma insert_nonpositive:
  assumes "batch_size self \<le> 0"
  shows "BatchInserter_insert beh row (self, db) =
     BatchInserter_flush beh (self\<lparr>rows := rows self @ [row]\<rparr>, db)"
  by (rule insert_flush) (use assms in linarith)

lemma run_inserts_nonpositive:
  assumes "batch_size self \<le> 0" and "rows self = []"
  shows "run healthy (map Insert rs) (self, db) =
     (self, db\<lparr>atomic_opened := atomic_opened db + length rs,
               bulk_inserts := bulk_inserts db @ map (\<lambda>r. (ModelType self, [r])) rs,
               table := table db @ map (Pair (ModelType self)) rs\<rparr>)"
  using assms
proof (induction rs arbitrary: db)
  case Nil
  then show ?case by simp
next
  case (Cons r rs)
  let ?db1 = "db\<lparr>atomic_opened := Suc (atomic_opened db),
          bulk_inserts := bulk_inserts db @ [(ModelType self, [r])],
          table := table db @ [(ModelType self, r)]\<rparr>"
  from Cons.prems have e: "self\<lparr>rows := []\<rparr> = self" by simp
  from Cons.prems have "batch_size self \<le> int (length (rows self)) + 1" by simp
  from insert_flush_healthy [OF this, of r db] Cons.prems
  have step: "BatchInserter_insert healthy r (self, db) = (None, (self, ?db1))"
    by (simp add: flush_batch_single e)
  from Cons.IH [OF Cons.prems, of ?db1] step show ?case by simp
qed

lemma flush_attempt:
  "atomic_opened (snd (snd (BatchInserter_flush beh (self, db)))) = Suc (atomic_opened db) \<and>
   bulk_inserts (snd (snd (BatchInserter_flush beh (self, db)))) =
     bulk_inserts db @ [(ModelType self, flush_batch self)]"
  by (cases rule: flush_cases [of beh db self]) simp_all

lemma flush_fields:
  "batch_size (fst (snd (BatchInserter_flush beh (self, db)))) = batch_size self \<and>
   ModelType (fst (snd (BatchInserter_flush beh (self, db)))) = ModelType self"
  by (cases rule: flush_cases [of beh db self]) simp_all

lemma flush_ok_empty:
  "fst (BatchInserter_flush beh (self, db)) = None \<Longrightarrow>
   rows (fst (snd (BatchInserter_flush beh (self, db)))) = []"
  by (cases rule: flush_cases [of beh db self]) simp_all

lemma do_call_nonpositive:
  assumes "batch_size (fst w) \<le> 0"
  shows "batch_size (fst (snd (do_call beh c w))) = batch_size (fst w) \<and>
         ModelType (fst (snd (do_call beh c w))) = ModelType (fst w) \<and>
         (fst (do_call beh c w) = None \<longrightarrow> rows (fst (snd (do_call beh c w))) = [])"
proof (cases w)
  case (Pair self db)
  with assms have size: "batch_size self \<le> 0" by simp
  show ?thesis
  proof (cases c)
    case Flush
    with Pair flush_fields [of beh self db] flush_ok_empty [of beh self db]
    show ?thesis by simp
  next
    case (Insert row)
    let ?self1 = "self\<lparr>rows := rows self @ [row]\<rparr>"
    from size have "BatchInserter_insert beh row (self, db) = BatchInserter_flush beh (?self1, db)"
      by (rule insert_nonpositive)
    with Pair Insert flush_fields [of beh ?self1 db] flush_ok_empty [of beh ?self1 db]
    show ?thesis by simp
  qed
qed

lemma run_nonpositive_empty:
  assumes "batch_size (fst w) \<le> 0" and "rows (fst w) = []" and "succeeded beh cs w"
  shows "rows (fst (run beh cs w)) = [] \<and>
         batch_size (fst (run beh cs w)) = batch_size (fst w) \<and>
         ModelType (fst (run beh cs w)) = ModelType (fst w)"
  using assms
proof (induction cs arbitrary: w)
  case Nil
  then show ?case by simp
next
  case (Cons c cs)
  let ?w1 = "snd (do_call beh c w)"
  note step = do_call_nonpositive [OF Cons.prems(1), of beh c]
  from Cons.prems(3) have ok: "fst (do_call beh c w) = None" and rest: "succeeded beh cs ?w1"
    by simp_all
  from step Cons.prems(1) have size: "batch_size (fst ?w1) \<le> 0" by simp
  from step ok have empty: "rows (fst ?w1) = []" by simp
  from Cons.IH [OF size empty rest] step show ?case by simp
qed

text \<open>
  Claim C10, as amended. A batch size of zero or less is accepted by the constructor.
  Every \<open>insert\<close> on such an inserter attempts a flush of the whole buffer, the new row
  included; the batch is the new row alone whenever the buffer was empty before the call.
  The buffer of a fresh inserter is empty after every sequence of \<open>insert\<close> and \<open>flush\<close>
  calls of which none has raised, whatever the store is, so that the next \<open>insert\<close> flushes
  its row alone. In particular, under a store that accepts every bulk insert each row is
  flushed in a batch of its own.
\<close>

theorem nonpositive_batch_size:
  assumes size: "bsize \<le> 0"
  shows "BatchInserter_init M bsize f =
       Inr \<lparr>rows = [], ModelType = M, batch_size = bsize, pad_data = f\<rparr> \<and>
     (\<forall>beh row self db. batch_size self = bsize \<longrightarrow>
        atomic_opened (snd (snd (BatchInserter_insert beh row (self, db)))) =
          Suc (atomic_opened db) \<and>
        bulk_inserts (snd (snd (BatchInserter_insert beh row (self, db)))) =
          bulk_inserts db @ [(ModelType self, flush_batch (self\<lparr>rows := rows self @ [row]\<rparr>))] \<and>
        (rows self = [] \<longrightarrow> flush_batch (self\<lparr>rows := rows self @ [row]\<rparr>) = [row])) \<and>
     (\<forall>beh cs row db.
        succeeded beh cs (\<lparr>rows = [], ModelType = M, batch_size = bsize, pad_data = f\<rparr>, db) \<longrightarrow>
        rows (fst (run beh cs
            (\<lparr>rows = [], ModelType = M, batch_size = bsize, pad_data = f\<rparr>, db))) = [] \<and>
        bulk_inserts (snd (snd (BatchInserter_insert beh row (run beh cs
            (\<lparr>rows = [], ModelType = M, batch_size = bsize, pad_data = f\<rparr>, db))))) =
          bulk_inserts (snd (run beh cs
            (\<lparr>rows = [], ModelType = M, batch_size = bsize, pad_data = f\<rparr>, db))) @ [(M, [row])]) \<and>
     run healthy (map Insert rs)
         (\<lparr>rows = [], ModelType = M, batch_size = bsize, pad_data = f\<rparr>, db0) =
       (\<lparr>rows = [], ModelType = M, batch_size = bsize, pad_data = f\<rparr>,
        db0\<lparr>atomic_opened := atomic_opened db0 + length rs,
           bulk_inserts := bulk_inserts db0 @ map (\<lambda>r. (M, [r])) rs,
           table := table db0 @ map (Pair M) rs\<rparr>)"
proof (intro conjI allI impI)
  show "BatchInserter_init M bsize f =
       Inr \<lparr>rows = [], ModelType = M, batch_size = bsize, pad_data = f\<rparr>"
    by (simp add: BatchInserter_init_def)
next
  fix beh :: store_behaviour and row :: row and self :: batch_inserter and db :: store
  assume "batch_size self = bsize"
  with size have ins: "BatchInserter_insert beh row (self, db) =
     BatchInserter_flush beh (self\<lparr>rows := rows self @ [row]\<rparr>, db)"
    by (simp add: insert_nonpositive)
  from flush_attempt [of beh "self\<lparr>rows := rows self @ [row]\<rparr>" db]
  show "atomic_opened (snd (snd (BatchInserter_insert beh row (self, db)))) =
          Suc (atomic_opened db)"
    and "bulk_inserts (snd (snd (BatchInserter_insert beh row (self, db)))) =
          bulk_inserts db @ [(ModelType self, flush_batch (self\<lparr>rows := rows self @ [row]\<rparr>))]"
    by (simp_all add: ins)
next
  fix row :: row and self :: batch_inserter
  assume "rows self = []"
  then show "flush_batch (self\<lparr>rows := rows self @ [row]\<rparr>) = [row]"
    by (simp add: flush_batch_single)
next
  fix beh :: store_behaviour and cs :: "call list" and row :: row and db :: store
  let ?S = "\<lparr>rows = [], ModelType = M, batch_size = bsize, pad_data = f\<rparr>"
  let ?w = "run beh cs (?S, db)"
  assume ok: "succeeded beh cs (?S, db)"
  from size have p: "batch_size (fst (?S, db)) \<le> 0" "rows (fst (?S, db)) = []" by simp_all
  from run_nonpositive_empty [OF p ok]
  have e: "rows (fst ?w) = []" and b: "batch_size (fst ?w) = bsize" and m: "ModelType (fst ?w) = M"
    by simp_all
  show "rows (fst ?w) = []" by (rule e)
  obtain self' db' where w: "?w = (self', db')" by (cases ?w)
  from e b m w have e': "rows self' = []" and b': "batch_size self' = bsize"
    and m': "ModelType self' = M" by simp_all
  from size b' have "batch_size self' \<le> 0" by simp
  then have ins: "BatchInserter_insert beh row (self', db') =
     BatchInserter_flush beh (self'\<lparr>rows := rows self' @ [row]\<rparr>, db')"
    by (rule insert_nonpositive)
  from flush_attempt [of beh "self'\<lparr>rows := rows self' @ [row]\<rparr>" db']
  have "bulk_inserts (snd (snd (BatchInserter_insert beh row (self', db')))) =
      bulk_inserts db' @ [(M, [row])]"
    by (simp add: ins e' m' flush_batch_single)
  then show "bulk_inserts (snd (snd (BatchInserter_insert beh row ?w))) =
      bulk_inserts (snd ?w) @ [(M, [row])]"
    by (simp add: w)
next
  let ?S = "\<lparr>rows = [], ModelType = M, batch_size = bsize, pad_data = f\<rparr>"
  from size have "batch_size ?S \<le> 0" "rows ?S = []" by simp_all
  from run_inserts_nonpositive [OF this, of rs db0]
  show "run healthy (map Insert rs) (?S, db0) =
       (?S, db0\<lparr>atomic_opened := atomic_opened db0 + length rs,
           bulk_inserts := bulk_inserts db0 @ map (\<lambda>r. (M, [r])) rs,
           table := table db0 @ map (Pair M) rs\<rparr>)"
    by simp
qed

text \<open>
  Claim C10 as stated fails after a flush that the store refused: the refused row stays
  in the buffer, and the next \<open>insert\<close> flushes a batch of two rows.
\<close>

theorem nonpositive_batch_size_counterexample:
  "BatchInserter_init ''Post'' 0 False =
     Inr \<lparr>rows = [], ModelType = ''Post'', batch_size = 0, pad_data = False\<rparr> \<and>
   bulk_inserts (snd (run flaky [Insert [''a'' \<mapsto> PyInt 1], Insert [''a'' \<mapsto> PyInt 2]]
     (\<lparr>rows = [], ModelType = ''Post'', batch_size = 0, pad_data = False\<rparr>, empty_store))) =
     [(''Post'', [[''a'' \<mapsto> PyInt 1]]),
      (''Post'', [[''a'' \<mapsto> PyInt 1], [''a'' \<mapsto> PyInt 2]])]"
  by (simp add: BatchInserter_init_def BatchInserter_insert_def BatchInserter_flush_def
      atomic_def insert_many_execute_def flaky_def empty_store_def Let_def)

theorem nonpositive_batch_size_witness:
  "(0::int) \<le> 0 \<and>
   succeeded healthy [Insert [''a'' \<mapsto> PyInt 1], Flush]
     (\<lparr>rows = [], ModelType = ''Post'', batch_size = 0, pad_data = False\<rparr>, empty_store) \<and>
   rows (fst (run healthy [Insert [''a'' \<mapsto> PyInt 1], Flush]
     (\<lparr>rows = [], ModelType = ''Post'', batch_size = 0, pad_data = False\<rparr>, empty_store))) = [] \<and>
   bulk_inserts (snd (snd (BatchInserter_insert healthy [''a'' \<mapsto> PyInt 2]
     (run healthy [Insert [''a'' \<mapsto> PyInt 1], Flush]
       (\<lparr>rows = [], ModelType = ''Post'', batch_size = 0, pad_data = False\<rparr>, empty_store))))) =
     [(''Post'', [[''a'' \<mapsto> PyInt 1]]), (''Post'', []), (''Post'', [[''a'' \<mapsto> PyInt 2]])] \<and>
   run healthy (map Insert [[''a'' \<mapsto> PyInt 1], [''a'' \<mapsto> PyInt 2]])
     (\<lparr>rows = [], ModelType = ''Post'', batch_size = 0, pad_data = False\<rparr>, empty_store) =
     (\<lparr>rows = [], ModelType = ''Post'', batch_size = 0, pad_data = False\<rparr>,
      \<lparr>table = [(''Post'', [''a'' \<mapsto> PyInt 1]), (''Post'', [''a'' \<mapsto> PyInt 2])],
       atomic_opened = 2,
       bulk_inserts = [(''Post'', [[''a'' \<mapsto> PyInt 1]]), (''Post'', [[''a'' \<mapsto> PyInt 2]])]\<rparr>)"
proof -
  let ?S = "\<lparr>rows = [], ModelType = ''Post'', batch_size = 0, pad_data = False\<rparr>"
  let ?r1 = "[''a'' \<mapsto> PyInt 1]" and ?r2 = "[''a'' \<mapsto> PyInt 2]"
  let ?cs = "[Insert ?r1, Flush]"
  have size: "(0::int) \<le> 0" by simp
  note th = nonpositive_batch_size [OF size, of "''Post''" False "[?r1, ?r2]" empty_store]
  have ok: "succeeded healthy ?cs (?S, empty_store)"
    by (simp add: BatchInserter_insert_def BatchInserter_flush_def atomic_def
        insert_many_execute_def healthy_def Let_def)
  have log: "bulk_inserts (snd (run healthy ?cs (?S, empty_store))) =
      [(''Post'', [?r1]), (''Post'', [])]"
    by (simp add: BatchInserter_insert_def BatchInserter_flush_def atomic_def
        insert_many_execute_def healthy_def empty_store_def Let_def)
  from th have "\<forall>beh cs row db. succeeded beh cs (?S, db) \<longrightarrow>
        rows (fst (run beh cs (?S, db))) = [] \<and>
        bulk_inserts (snd (snd (BatchInserter_insert beh row (run beh cs (?S, db))))) =
          bulk_inserts (snd (run beh cs (?S, db))) @ [(''Post'', [row])]"
    by blast
  with ok have e: "rows (fst (run healthy ?cs (?S, empty_store))) = []"
    and "bulk_inserts (snd (snd (BatchInserter_insert healthy ?r2 (run healthy ?cs (?S, empty_store))))) =
          bulk_inserts (snd (run healthy ?cs (?S, empty_store))) @ [(''Post'', [?r2])]"
    by blast+
  with log have b: "bulk_inserts (snd (snd (BatchInserter_insert healthy ?r2
      (run healthy ?cs (?S, empty_store))))) = [(''Post'', [?r1]), (''Post'', []), (''Post'', [?r2])]"
    by simp
  from th have "run healthy (map Insert [?r1, ?r2]) (?S, empty_store) =
     (?S, empty_store\<lparr>atomic_opened := atomic_opened empty_store + length [?r1, ?r2],
           bulk_inserts := bulk_inserts empty_store @ map (\<lambda>r. (''Post'', [r])) [?r1, ?r2],
           table := table empty_store @ map (Pair ''Post'') [?r1, ?r2]\<rparr>)"
    by blast
  then have r: "run healthy (map Insert [?r1, ?r2]) (?S, empty_store) =
     (?S, \<lparr>table = [(''Post'', ?r1), (''Post'', ?r2)], atomic_opened = 2,
       bulk_inserts = [(''Post'', [?r1]), (''Post'', [?r2])]\<rparr>)"
    by (simp add: empty_store_def)
  from size ok e b r show ?thesis by (intro conjI)
qed

section \<open>Order of the rows\<close>

lemma submitted_Cons: "submitted (c # cs) = submitted [c] @ submitted cs"
  by (cases c) simp_all

lemma map_snd_Pair [simp]: "map (snd \<circ> Pair M) xs = xs"
  by (induction xs) simp_all

lemma content_Pair [simp]: "content (self, db) = map snd (table db) @ rows self"
  by (simp add: content_def)

lemma map_le_list_refl: "list_all2 (\<subseteq>\<^sub>m) xs xs"
  by (simp add: list_all2_refl)

lemma map_le_list_trans:
  "list_all2 (\<subseteq>\<^sub>m) xs ys \<Longrightarrow> list_all2 (\<subseteq>\<^sub>m) ys zs \<Longrightarrow> list_all2 (\<subseteq>\<^sub>m) xs zs"
  by (rule list_all2_trans [where ?P1.0="(\<subseteq>\<^sub>m)" and ?P2.0="(\<subseteq>\<^sub>m)"]) (rule map_le_trans)

lemma flush_content:
  "content (snd (BatchInserter_flush beh (self, db))) = map snd (table db) @ flush_batch self"
  by (cases rule: flush_cases [of beh db self]) simp_all

lemma flush_pad_data [simp]:
  "pad_data (fst (snd (BatchInserter_flush beh (self, db)))) = pad_data self"
  by (cases rule: flush_cases [of beh db self]) simp_all

lemma insert_content:
  "content (snd (BatchInserter_insert beh row (self, db))) =
     map snd (table db) @
       (if batch_size self \<le> int (length (rows self)) + 1
        then flush_batch (self\<lparr>rows := rows self @ [row]\<rparr>) else rows self @ [row])"
proof (cases "batch_size self \<le> int (length (rows self)) + 1")
  case True
  then show ?thesis by (simp add: insert_flush flush_content)
next
  case False
  then show ?thesis by (simp add: insert_no_flush)
qed

lemma insert_pad_data [simp]:
  "pad_data (fst (snd (BatchInserter_insert beh row (self, db)))) = pad_data self"
proof (cases "batch_size self \<le> int (length (rows self)) + 1")
  case True
  then show ?thesis by (simp add: insert_flush)
next
  case False
  then show ?thesis by (simp add: insert_no_flush)
qed

lemma do_call_pad_data [simp]:
  "pad_data (fst (snd (do_call beh c w))) = pad_data (fst w)"
  by (cases c; cases w) simp_all

lemma do_call_content:
  "list_all2 (\<subseteq>\<^sub>m) (content w @ submitted [c]) (content (snd (do_call beh c w)))"
proof (cases w)
  case (Pair self db)
  show ?thesis
  proof (cases c)
    case Flush
    with Pair show ?thesis
      by (simp add: flush_content list_all2_appendI map_le_list_refl flush_batch_map_le)
  next
    case (Insert row)
    have "list_all2 (\<subseteq>\<^sub>m) (rows self @ [row]) (flush_batch (self\<lparr>rows := rows self @ [row]\<rparr>))"
      using flush_batch_map_le [of "self\<lparr>rows := rows self @ [row]\<rparr>"] by simp
    with Pair Insert show ?thesis
      by (simp add: insert_content list_all2_appendI map_le_list_refl)
  qed
qed

lemma do_call_content_no_pad:
  assumes "\<not> pad_data (fst w)"
  shows "content (snd (do_call beh c w)) = content w @ submitted [c]"
proof (cases w)
  case (Pair self db)
  with assms have np: "\<not> pad_data self" by simp
  show ?thesis
  proof (cases c)
    case Flush
    with Pair np show ?thesis by (simp add: flush_content flush_batch_def)
  next
    case (Insert row)
    with Pair np show ?thesis by (simp add: insert_content flush_batch_def)
  qed
qed

lemma run_content:
  "list_all2 (\<subseteq>\<^sub>m) (content w @ submitted cs) (content (run beh cs w))"
proof (induction cs arbitrary: w)
  case Nil
  show ?case by (simp add: map_le_list_refl)
next
  case (Cons c cs)
  let ?w1 = "snd (do_call beh c w)"
  have "list_all2 (\<subseteq>\<^sub>m) ((content w @ submitted [c]) @ submitted cs) (content ?w1 @ submitted cs)"
    by (rule list_all2_appendI [OF do_call_content map_le_list_refl])
  from map_le_list_trans [OF this Cons.IH [of ?w1]]
  show ?case by (simp add: submitted_Cons [of c cs])
qed

lemma run_pad_data [simp]: "pad_data (fst (run beh cs w)) = pad_data (fst w)"
  by (induction cs arbitrary: w) simp_all

lemma run_content_no_pad:
  "\<not> pad_data (fst w) \<Longrightarrow> content (run beh cs w) = content w @ submitted cs"
proof (induction cs arbitrary: w)
  case Nil
  show ?case by simp
next
  case (Cons c cs)
  let ?w1 = "snd (do_call beh c w)"
  from Cons.prems have "\<not> pad_data (fst ?w1)" by simp
  from Cons.IH [OF this] do_call_content_no_pad [OF Cons.prems, of beh c]
  show ?case by (simp add: submitted_Cons [of c cs])
qed

text \<open>
  Claim C8. Rows are kept and delivered in the order of submission. For every sequence
  of calls and every behaviour of the store, the committed rows followed by the buffered
  rows are, position by position, the rows that were there before followed by the rows
  submitted, each one extended by the padding at most, and equal to them when the
  inserter does not pad. An \<open>insert\<close> appends its row at the end of the buffer; a flush
  hands the buffer to the bulk insert as it is, after the padding when the inserter
  pads; and the padding keeps the length of the batch and rewrites row \<open>i\<close> into a row that
  extends row \<open>i\<close>.
\<close>

theorem fifo_order:
  "list_all2 (\<subseteq>\<^sub>m) (content (self, db) @ submitted cs) (content (run beh cs (self, db))) \<and>
   (\<not> pad_data self \<longrightarrow>
      content (run beh cs (self, db)) = content (self, db) @ submitted cs) \<and>
   (int (length (rows self)) + 1 < batch_size self \<longrightarrow>
      rows (fst (snd (BatchInserter_insert beh row (self, db)))) = rows self @ [row]) \<and>
   (batch_size self \<le> int (length (rows self)) + 1 \<longrightarrow>
      bulk_inserts (snd (snd (BatchInserter_insert beh row (self, db)))) =
        bulk_inserts db @ [(ModelType self, flush_batch (self\<lparr>rows := rows self @ [row]\<rparr>))]) \<and>
   bulk_inserts (snd (snd (BatchInserter_flush beh (self, db)))) =
     bulk_inserts db @ [(ModelType self, flush_batch self)] \<and>
   flush_batch self =
     (if pad_data self then BatchInserter_pad_data (rows self) else rows self) \<and>
   length (BatchInserter_pad_data batch) = length batch \<and>
   (\<forall>i<length batch. batch ! i \<subseteq>\<^sub>m BatchInserter_pad_data batch ! i)"
proof (intro conjI impI)
  show "list_all2 (\<subseteq>\<^sub>m) (content (self, db) @ submitted cs) (content (run beh cs (self, db)))"
    by (rule run_content)
next
  assume "\<not> pad_data self"
  then show "content (run beh cs (self, db)) = content (self, db) @ submitted cs"
    using run_content_no_pad [of "(self, db)" beh cs] by simp
next
  assume "int (length (rows self)) + 1 < batch_size self"
  then show "rows (fst (snd (BatchInserter_insert beh row (self, db)))) = rows self @ [row]"
    by (simp add: insert_no_flush)
next
  assume "batch_size self \<le> int (length (rows self)) + 1"
  then show "bulk_inserts (snd (snd (BatchInserter_insert beh row (self, db)))) =
        bulk_inserts db @ [(ModelType self, flush_batch (self\<lparr>rows := rows self @ [row]\<rparr>))]"
    using flush_attempt [of beh "self\<lparr>rows := rows self @ [row]\<rparr>" db]
    by (simp add: insert_flush)
next
  show "bulk_inserts (snd (snd (BatchInserter_flush beh (self, db)))) =
     bulk_inserts db @ [(ModelType self, flush_batch self)]"
    using flush_attempt [of beh self db] by simp
next
  show "flush_batch self =
     (if pad_data self then BatchInserter_pad_data (rows self) else rows self)"
    by (simp add: flush_batch_def)
next
  show "length (BatchInserter_pad_data batch) = length batch" by simp
next
  from pad_data_map_le [of batch]
  show "\<forall>i<length batch. batch ! i \<subseteq>\<^sub>m BatchInserter_pad_data batch ! i"
    by (simp add: list_all2_conv_all_nth)
qed

theorem fifo_order_witness:
  "\<not> pad_data \<lparr>rows = [], ModelType = ''Post'', batch_size = 2, pad_data = False\<rparr> \<and>
   content (run flaky [Insert [''a'' \<mapsto> PyInt 1], Insert [''b'' \<mapsto> PyInt 2], Flush]
      (\<lparr>rows = [], ModelType = ''Post'', batch_size = 2, pad_data = False\<rparr>, empty_store))
     = [[''a'' \<mapsto> PyInt 1], [''b'' \<mapsto> PyInt 2]] \<and>
   int (length (rows \<lparr>rows = [], ModelType = ''Post'', batch_size = 2, pad_data = False\<rparr>)) + 1
     < batch_size \<lparr>rows = [], ModelType = ''Post'', batch_size = 2, pad_data = False\<rparr> \<and>
   rows (fst (snd (BatchInserter_insert flaky [''a'' \<mapsto> PyInt 1]
      (\<lparr>rows = [], ModelType = ''Post'', batch_size = 2, pad_data = False\<rparr>, empty_store))))
     = [[''a'' \<mapsto> PyInt 1]] \<and>
   (0::nat) < length [[''a'' \<mapsto> PyInt 1], [''b'' \<mapsto> PyInt 2]] \<and>
   [''a'' \<mapsto> PyInt 1] \<subseteq>\<^sub>m BatchInserter_pad_data [[''a'' \<mapsto> PyInt 1], [''b'' \<mapsto> PyInt 2]] ! 0"
proof -
  let ?S = "\<lparr>rows = [], ModelType = ''Post'', batch_size = 2, pad_data = False\<rparr>"
  let ?r1 = "[''a'' \<mapsto> PyInt 1]" and ?r2 = "[''b'' \<mapsto> PyInt 2]"
  let ?cs = "[Insert ?r1, Insert ?r2, Flush]"
  note th = fifo_order [where self="?S" and db=empty_store and beh=flaky and cs="?cs"
      and row="?r1" and batch="[?r1, ?r2]"]
  have np: "\<not> pad_data ?S" by simp
  have small: "int (length (rows ?S)) + 1 < batch_size ?S" by simp
  have i: "(0::nat) < length [?r1, ?r2]" by simp
  from th np have "content (run flaky ?cs (?S, empty_store)) = content (?S, empty_store) @ submitted ?cs"
    by blast
  then have c: "content (run flaky ?cs (?S, empty_store)) = [?r1, ?r2]"
    by (simp add: empty_store_def)
  from th small have "rows (fst (snd (BatchInserter_insert flaky ?r1 (?S, empty_store)))) = rows ?S @ [?r1]"
    by blast
  then have r: "rows (fst (snd (BatchInserter_insert flaky ?r1 (?S, empty_store)))) = [?r1]"
    by simp
  from th have "\<forall>i<length [?r1, ?r2]. [?r1, ?r2] ! i \<subseteq>\<^sub>m BatchInserter_pad_data [?r1, ?r2] ! i"
    by blast
  with i have "[?r1, ?r2] ! 0 \<subseteq>\<^sub>m BatchInserter_pad_data [?r1, ?r2] ! 0" by blast
  then have m: "?r1 \<subseteq>\<^sub>m BatchInserter_pad_data [?r1, ?r2] ! 0" by simp
  from np c small r i m show ?thesis by (intro conjI)
qed

section \<open>The dictionaries of the caller\<close>

lemma preserves_refl [simp]: "preserves h h"
  by (simp add: preserves_def)

lemma preserves_trans: "preserves h h1 \<Longrightarrow> preserves h1 h2 \<Longrightarrow> preserves h h2"
  by (auto simp: preserves_def)

lemma new_dict_preserves: "preserves h (snd (new_dict d h))"
  by (simp add: new_dict_def preserves_def)

lemma pad_slot_preserves: "preserves (snd s) (snd (pad_slot dflt i s))"
  by (simp add: pad_slot_def new_dict_def dict_update_def preserves_def Let_def)

lemma fold_pad_slot_preserves: "preserves (snd s) (snd (fold (pad_slot dflt) is s))"
proof (induction "is" arbitrary: s)
  case Nil
  show ?case by simp
next
  case (Cons i "is")
  from preserves_trans [OF pad_slot_preserves Cons.IH] show ?case by simp
qed

lemma ref_pad_data_preserves: "preserves h (snd (ref_pad_data rws h))"
proof -
  let ?f = "fold (\<lambda>a field_names. field_names \<union> dom (dicts h a)) rws {}"
  have "preserves (snd (new_dict (default_data ?f) h))
      (snd (fold (pad_slot (fst (new_dict (default_data ?f) h))) [0..<length rws]
         (rws, snd (new_dict (default_data ?f) h))))"
    using fold_pad_slot_preserves [of "(rws, snd (new_dict (default_data ?f) h))"] by simp
  from preserves_trans [OF new_dict_preserves this]
  show ?thesis by (simp add: ref_pad_data_def Let_def split_beta)
qed

lemma ref_flush_preserves: "preserves (fst (snd w)) (fst (snd (snd (ref_flush beh w))))"
  using ref_pad_data_preserves [of "fst (snd w)" "ref_rows (fst w)"]
  by (simp add: ref_flush_def Let_def split_beta split: option.splits)

lemma ref_insert_preserves: "preserves (fst (snd w)) (fst (snd (snd (ref_insert beh a w))))"
  using ref_flush_preserves [of "(fst w\<lparr>ref_rows := ref_rows (fst w) @ [a]\<rparr>, fst (snd w), snd (snd w))" beh]
  by (simp add: ref_insert_def Let_def)

lemma ref_do_call_preserves: "preserves (fst (snd w)) (fst (snd (snd (ref_do_call beh c w))))"
  by (cases c) (simp_all add: ref_insert_preserves ref_flush_preserves)

lemma ref_run_preserves: "preserves (fst (snd w)) (fst (snd (ref_run beh cs w)))"
proof (induction cs arbitrary: w)
  case Nil
  show ?case by simp
next
  case (Cons c cs)
  from preserves_trans [OF ref_do_call_preserves Cons.IH] show ?case by simp
qed

lemma fold_union_dom_ref:
  "fold (\<lambda>a field_names. field_names \<union> dom (dicts h a)) rws A = A \<union> (\<Union>a\<in>set rws. dom (dicts h a))"
  by (induction rws arbitrary: A) auto

lemma pad_slot_step:
  assumes "fst s ! i = r" and "r < next_free (snd s)" and "d < next_free (snd s)"
  shows "pad_slot d i s =
      ((fst s)[i := next_free (snd s)],
       (snd s)\<lparr>dicts := (dicts (snd s))
                  (next_free (snd s) := dicts (snd s) d ++ dicts (snd s) r),
                next_free := Suc (next_free (snd s))\<rparr>)"
  using assms by (simp add: pad_slot_def new_dict_def dict_update_def Let_def)

lemma new_dict_fields:
  "next_free (snd (new_dict D h)) = Suc (next_free h)"
  "dicts (snd (new_dict D h)) = (dicts h)(next_free h := D)"
  by (simp_all add: new_dict_def)

lemma pad_slot_loop:
  assumes alloc: "\<forall>a\<in>set rws. a < next_free h"
    and n: "n \<le> length rws"
  shows "fst (fold (pad_slot (next_free h)) [0..<n] (rws, snd (new_dict D h))) =
           map (\<lambda>j. Suc (next_free h + j)) [0..<n] @ drop n rws \<and>
         next_free (snd (fold (pad_slot (next_free h)) [0..<n] (rws, snd (new_dict D h)))) =
           Suc (next_free h + n) \<and>
         (\<forall>a<next_free h.
            dicts (snd (fold (pad_slot (next_free h)) [0..<n] (rws, snd (new_dict D h)))) a =
            dicts h a) \<and>
         dicts (snd (fold (pad_slot (next_free h)) [0..<n] (rws, snd (new_dict D h))))
            (next_free h) = D \<and>
         (\<forall>j<n.
            dicts (snd (fold (pad_slot (next_free h)) [0..<n] (rws, snd (new_dict D h))))
              (Suc (next_free h + j)) = D ++ dicts h (rws ! j))"
  using n
proof (induction n)
  case 0
  show ?case by (simp add: new_dict_fields)
next
  case (Suc n)
  let ?d = "next_free h"
  let ?s = "fold (pad_slot ?d) [0..<n] (rws, snd (new_dict D h))"
  from Suc.prems have n: "n < length rws" by simp
  from Suc.IH n have rs: "fst ?s = map (\<lambda>j. Suc (?d + j)) [0..<n] @ drop n rws"
    and nf: "next_free (snd ?s) = Suc (?d + n)"
    and old: "\<forall>a<?d. dicts (snd ?s) a = dicts h a"
    and dflt: "dicts (snd ?s) ?d = D"
    and new: "\<forall>j<n. dicts (snd ?s) (Suc (?d + j)) = D ++ dicts h (rws ! j)"
    by simp_all
  from rs n have at_n: "fst ?s ! n = rws ! n"
    by (simp add: nth_append)
  from alloc n have lt: "rws ! n < ?d" by simp
  have step: "fold (pad_slot ?d) [0..<Suc n] (rws, snd (new_dict D h)) = pad_slot ?d n ?s"
    by simp
  have upd: "(fst ?s)[n := Suc (?d + n)] = map (\<lambda>j. Suc (?d + j)) [0..<Suc n] @ drop (Suc n) rws"
    using n by (simp add: rs list_update_append Cons_nth_drop_Suc [symmetric])
  from lt old have rn: "dicts (snd ?s) (rws ! n) = dicts h (rws ! n)" by simp
  have "pad_slot ?d n ?s =
      ((fst ?s)[n := next_free (snd ?s)],
       (snd ?s)\<lparr>dicts := (dicts (snd ?s))
                  (next_free (snd ?s) := dicts (snd ?s) ?d ++ dicts (snd ?s) (rws ! n)),
                next_free := Suc (next_free (snd ?s))\<rparr>)"
    by (rule pad_slot_step [OF at_n]) (use lt nf in simp_all)
  then have res: "pad_slot ?d n ?s =
      ((fst ?s)[n := Suc (?d + n)],
       (snd ?s)\<lparr>dicts := (dicts (snd ?s))(Suc (?d + n) := D ++ dicts h (rws ! n)),
                next_free := Suc (Suc (?d + n))\<rparr>)"
    by (simp only: nf dflt rn)
  show ?case
    unfolding step res
    using old dflt new by (simp add: upd less_Suc_eq)
qed

lemma ref_pad_data_refines:
  assumes alloc: "\<forall>a\<in>set rws. a < next_free h"
  shows "map (dicts (snd (ref_pad_data rws h))) (fst (ref_pad_data rws h)) =
           BatchInserter_pad_data (map (dicts h) rws) \<and>
         length (fst (ref_pad_data rws h)) = length rws \<and>
         (\<forall>a\<in>set (fst (ref_pad_data rws h)). next_free h < a)"
proof -
  let ?F = "fold (\<lambda>a field_names. field_names \<union> dom (dicts h a)) rws {}"
  let ?D = "default_data ?F"
  let ?s = "fold (pad_slot (next_free h)) [0..<length rws] (rws, snd (new_dict ?D h))"
  have s: "ref_pad_data rws h = ?s"
    by (simp add: ref_pad_data_def Let_def split_beta new_dict_def)
  from pad_slot_loop [OF alloc order_refl, of ?D]
  have rs: "fst ?s = map (\<lambda>j. Suc (next_free h + j)) [0..<length rws]"
    and new: "\<forall>j<length rws. dicts (snd ?s) (Suc (next_free h + j)) = ?D ++ dicts h (rws ! j)"
    by simp_all
  have F: "?F = (\<Union>r\<in>set (map (dicts h) rws). dom r)"
    by (simp add: fold_union_dom_ref)
  have "map (dicts (snd ?s)) (fst ?s) = map (\<lambda>r. ?D ++ r) (map (dicts h) rws)"
    by (rule nth_equalityI) (simp_all add: rs new)
  then have "map (dicts (snd ?s)) (fst ?s) = BatchInserter_pad_data (map (dicts h) rws)"
    by (simp only: pad_data_eq_map F)
  moreover have "length (fst ?s) = length rws" by (simp add: rs)
  moreover have "\<forall>a\<in>set (fst ?s). next_free h < a" by (auto simp: rs)
  ultimately show ?thesis by (simp only: s) 
qed

lemma ref_pad_data_allocated:
  assumes alloc: "\<forall>a\<in>set rws. a < next_free h"
  shows "\<forall>a\<in>set (fst (ref_pad_data rws h)). a < next_free (snd (ref_pad_data rws h))"
proof -
  let ?F = "fold (\<lambda>a field_names. field_names \<union> dom (dicts h a)) rws {}"
  let ?D = "default_data ?F"
  let ?s = "fold (pad_slot (next_free h)) [0..<length rws] (rws, snd (new_dict ?D h))"
  have s: "ref_pad_data rws h = ?s"
    by (simp add: ref_pad_data_def Let_def split_beta new_dict_def)
  from pad_slot_loop [OF alloc order_refl, of ?D]
  have rs: "fst ?s = map (\<lambda>j. Suc (next_free h + j)) [0..<length rws]"
    and nf: "next_free (snd ?s) = Suc (next_free h + length rws)"
    by simp_all
  have "\<forall>a\<in>set (fst ?s). a < next_free (snd ?s)"
    unfolding rs nf by auto
  then show ?thesis by (simp only: s)
qed

lemma ref_flush_refines:
  assumes "allocated (self, h, db)"
  shows "fst (ref_flush beh (self, h, db)) = fst (BatchInserter_flush beh (abstraction (self, h, db))) \<and>
         abstraction (snd (ref_flush beh (self, h, db))) =
           snd (BatchInserter_flush beh (abstraction (self, h, db))) \<and>
         allocated (snd (ref_flush beh (self, h, db)))"
proof -
  from assms have alloc: "\<forall>a\<in>set (ref_rows self). a < next_free h"
    by (simp add: allocated_def list_all_iff)
  note r = ref_pad_data_refines [OF alloc] ref_pad_data_allocated [OF alloc]
  show ?thesis
  proof (cases "ref_pad_data_flag self")
    case True
    with r show ?thesis
      by (simp add: ref_flush_def BatchInserter_flush_def abstraction_def allocated_def
          list_all_iff Let_def split_beta split: option.splits)
  next
    case False
    with alloc show ?thesis
      by (simp add: ref_flush_def BatchInserter_flush_def abstraction_def allocated_def
          list_all_iff Let_def split_beta split: option.splits)
  qed
qed

lemma ref_insert_refines:
  assumes "allocated (self, h, db)" and "a < next_free h"
  shows "fst (ref_insert beh a (self, h, db)) =
           fst (BatchInserter_insert beh (dicts h a) (abstraction (self, h, db))) \<and>
         abstraction (snd (ref_insert beh a (self, h, db))) =
           snd (BatchInserter_insert beh (dicts h a) (abstraction (self, h, db))) \<and>
         allocated (snd (ref_insert beh a (self, h, db)))"
proof -
  let ?self1 = "self\<lparr>ref_rows := ref_rows self @ [a]\<rparr>"
  from assms have al: "allocated (?self1, h, db)"
    by (simp add: allocated_def)
  have ab: "abstraction (?self1, h, db) =
      (fst (abstraction (self, h, db))\<lparr>rows := rows (fst (abstraction (self, h, db))) @ [dicts h a]\<rparr>,
       snd (abstraction (self, h, db)))"
    by (simp add: abstraction_def)
  show ?thesis
  proof (cases "ref_batch_size self \<le> int (length (ref_rows self)) + 1")
    case True
    with ref_flush_refines [OF al, of beh] ab show ?thesis
      by (simp add: ref_insert_def BatchInserter_insert_def Let_def abstraction_def)
  next
    case False
    with al show ?thesis
      by (simp add: ref_insert_def BatchInserter_insert_def Let_def abstraction_def)
  qed
qed

text \<open>
  Claim C9. No call of the inserter writes into a dictionary of the caller: every
  dictionary that is allocated before a sequence of \<open>insert\<close> and \<open>flush\<close> calls has the same
  contents after it, whatever the store answers. The padding leaves every allocated
  dictionary as it is, puts only new dictionaries into the slots of the list, and the
  contents of these are the padded rows of the model over rows.
\<close>

theorem caller_rows_untouched:
  "(\<forall>a<next_free (fst (snd w)).
      dicts (fst (snd (ref_run beh cs w))) a = dicts (fst (snd w)) a) \<and>
   (\<forall>a<next_free h. dicts (snd (ref_pad_data rws h)) a = dicts h a) \<and>
   ((\<forall>a\<in>set rws. a < next_free h) \<longrightarrow>
      (\<forall>a\<in>set (fst (ref_pad_data rws h)). next_free h < a) \<and>
      map (dicts (snd (ref_pad_data rws h))) (fst (ref_pad_data rws h)) =
        BatchInserter_pad_data (map (dicts h) rws))"
proof (intro conjI impI)
  from ref_run_preserves [of w beh cs]
  show "\<forall>a<next_free (fst (snd w)).
      dicts (fst (snd (ref_run beh cs w))) a = dicts (fst (snd w)) a"
    by (simp add: preserves_def)
next
  from ref_pad_data_preserves [of h rws]
  show "\<forall>a<next_free h. dicts (snd (ref_pad_data rws h)) a = dicts h a"
    by (simp add: preserves_def)
next
  assume "\<forall>a\<in>set rws. a < next_free h"
  from ref_pad_data_refines [OF this]
  show "\<forall>a\<in>set (fst (ref_pad_data rws h)). next_free h < a"
    and "map (dicts (snd (ref_pad_data rws h))) (fst (ref_pad_data rws h)) =
        BatchInserter_pad_data (map (dicts h) rws)"
    by simp_all
qed

theorem caller_rows_untouched_witness:
  "(0::nat) < next_free example_heap \<and>
   dicts (fst (snd (ref_run healthy [Ref_Insert 0, Ref_Insert 1]
      (\<lparr>ref_rows = [], ref_ModelType = ''Post'', ref_batch_size = 2, ref_pad_data_flag = True\<rparr>,
       example_heap, empty_store)))) 0 = [''a'' \<mapsto> PyInt 1] \<and>
   next_free (fst (snd (ref_run healthy [Ref_Insert 0, Ref_Insert 1]
      (\<lparr>ref_rows = [], ref_ModelType = ''Post'', ref_batch_size = 2, ref_pad_data_flag = True\<rparr>,
       example_heap, empty_store)))) = 5"
proof -
  let ?w = "(\<lparr>ref_rows = [], ref_ModelType = ''Post'', ref_batch_size = 2, ref_pad_data_flag = True\<rparr>,
       example_heap, empty_store)"
  have lt: "(0::nat) < next_free example_heap" by (simp add: example_heap_def)
  from caller_rows_untouched [where w="?w" and beh=healthy and cs="[Ref_Insert 0, Ref_Insert 1]"]
  have "\<forall>a<next_free (fst (snd ?w)).
      dicts (fst (snd (ref_run healthy [Ref_Insert 0, Ref_Insert 1] ?w))) a = dicts (fst (snd ?w)) a"
    by (rule conjunct1)
  with lt have "dicts (fst (snd (ref_run healthy [Ref_Insert 0, Ref_Insert 1] ?w))) 0 =
      dicts (fst (snd ?w)) 0" by simp
  then have d: "dicts (fst (snd (ref_run healthy [Ref_Insert 0, Ref_Insert 1] ?w))) 0 = [''a'' \<mapsto> PyInt 1]"
    by (simp add: example_heap_def)
  have n: "next_free (fst (snd (ref_run healthy [Ref_Insert 0, Ref_Insert 1] ?w))) = 5"
    by (simp add: ref_insert_def ref_flush_def ref_pad_data_def pad_slot_def new_dict_def
        dict_update_def atomic_def insert_many_execute_def healthy_def example_heap_def
        Let_def split_beta upt_rec)
  from lt d n show ?thesis by (intro conjI)
qed

end
